theory Spec2Isabelle
  imports Main "HOL-Library.Multiset" "HOL-Library.Product_Lexorder"
begin

section \<open>Python strings\<close>

text \<open>
  Text is modelled as \<^typ>\<open>string\<close>; the model covers ASCII text (a character outside
  ASCII is the sequence of its UTF-8 bytes, left alone by \<open>lower\<close>).
\<close>

definition lower_char :: "char \<Rightarrow> char" where
  "lower_char c =
     (case map_of (zip ''ABCDEFGHIJKLMNOPQRSTUVWXYZ'' ''abcdefghijklmnopqrstuvwxyz'') c of
        Some d \<Rightarrow> d
      | None \<Rightarrow> c)"

text \<open>\<^verbatim>\<open>s.lower()\<close>\<close>

definition lower :: "string \<Rightarrow> string" where
  "lower s = map lower_char s"

text \<open>\<^verbatim>\<open>s.startswith(p)\<close>\<close>

fun startswith :: "string \<Rightarrow> string \<Rightarrow> bool" where
  "startswith s [] = True"
| "startswith [] (p # ps) = False"
| "startswith (c # cs) (p # ps) = (c = p \<and> startswith cs ps)"

text \<open>\<^verbatim>\<open>s.endswith(e)\<close>\<close>

definition endswith :: "string \<Rightarrow> string \<Rightarrow> bool" where
  "endswith s e = startswith (rev s) (rev e)"

text \<open>\<^verbatim>\<open>p in s\<close>: \<open>p\<close> occurs in \<open>s\<close> as a contiguous substring.\<close>

fun contains :: "string \<Rightarrow> string \<Rightarrow> bool" where
  "contains p [] = (p = [])"
| "contains p (c # cs) = (startswith (c # cs) p \<or> contains p cs)"

text \<open>
  \<^verbatim>\<open>s.replace(old, new)\<close>: every non-overlapping occurrence, scanning from the left.
  When \<open>old\<close> starts \<open>c # cs\<close>, the rest after the occurrence is
  \<open>drop (length old - 1) cs\<close>.
\<close>

fun replace :: "string \<Rightarrow> string \<Rightarrow> string \<Rightarrow> string" where
  "replace old new [] = (if old = [] then new else [])"
| "replace old new (c # cs) =
     (if old = [] then new @ c # replace old new cs
      else if startswith (c # cs) old then new @ replace old new (drop (length old - 1) cs)
      else c # replace old new cs)"

definition digit_chr :: "nat \<Rightarrow> char" where
  "digit_chr d = ''0123456789'' ! d"

definition digit_val :: "char \<Rightarrow> nat" where
  "digit_val c = of_char c - 48"

text \<open>\<^verbatim>\<open>str(n)\<close> for a non-negative integer.\<close>

fun dec :: "nat \<Rightarrow> string" where
  "dec n = (if n < 10 then [digit_chr n] else dec (n div 10) @ [digit_chr (n mod 10)])"

declare dec.simps [simp del]

text \<open>Zero padding to a minimum width, as \<^verbatim>\<open>{n:04d}\<close> and \<^verbatim>\<open>%02d\<close> do.\<close>

definition zpad :: "nat \<Rightarrow> string \<Rightarrow> string" where
  "zpad w s = replicate (w - length s) (CHR ''0'') @ s"

section \<open>Values loaded from JSON\<close>

text \<open>
  What \<^verbatim>\<open>json.load\<close> returns. An object keeps its members in document order; numbers
  are modelled as integers.
\<close>

datatype json =
    JNull
  | JBool bool
  | JInt int
  | JStr string
  | JArr "json list"
  | JObj "(string \<times> json) list"

datatype exn = AttributeError | TypeError | ValueError | JSONDecodeError | OSError

text \<open>Python truthiness, as \<^verbatim>\<open>or\<close> and \<^verbatim>\<open>if not x\<close> test it.\<close>

fun truthy :: "json \<Rightarrow> bool" where
  "truthy JNull = False"
| "truthy (JBool b) = b"
| "truthy (JInt i) = (i \<noteq> 0)"
| "truthy (JStr s) = (s \<noteq> [])"
| "truthy (JArr xs) = (xs \<noteq> [])"
| "truthy (JObj kvs) = (kvs \<noteq> [])"

definition py_or :: "json \<Rightarrow> json \<Rightarrow> json" where
  "py_or a b = (if truthy a then a else b)"

text \<open>
  \<^verbatim>\<open>item.get(k)\<close>: \<^verbatim>\<open>None\<close> for a missing key; of a repeated key the last member
  is the one the loaded dict holds.
\<close>

definition dict_get :: "(string \<times> json) list \<Rightarrow> string \<Rightarrow> json" where
  "dict_get kvs k = (case map_of (rev kvs) k of None \<Rightarrow> JNull | Some v \<Rightarrow> v)"

section \<open>Dates and times\<close>

text \<open>A naive \<^verbatim>\<open>datetime\<close>; the formats of the program never set microseconds.\<close>

record datetime =
  year :: nat
  month :: nat
  day :: nat
  hour :: nat
  minute :: nat
  second :: nat

text \<open>Datetimes compare field by field, the year first.\<close>

definition dt_key :: "datetime \<Rightarrow> nat \<times> nat \<times> nat \<times> nat \<times> nat \<times> nat" where
  "dt_key dt = (year dt, month dt, day dt, hour dt, minute dt, second dt)"

definition is_leap :: "nat \<Rightarrow> bool" where
  "is_leap y = (y mod 4 = 0 \<and> (y mod 100 \<noteq> 0 \<or> y mod 400 = 0))"

definition days_in_month :: "nat \<Rightarrow> nat \<Rightarrow> nat" where
  "days_in_month y m =
     (if m = 2 then (if is_leap y then 29 else 28)
      else if m \<in> {4, 6, 9, 11} then 30 else 31)"

text \<open>The range checks of the \<^verbatim>\<open>datetime\<close> constructor (it raises \<^verbatim>\<open>ValueError\<close>).\<close>

definition valid_datetime :: "datetime \<Rightarrow> bool" where
  "valid_datetime dt =
     (1 \<le> year dt \<and> year dt \<le> 9999 \<and> 1 \<le> month dt \<and> month dt \<le> 12 \<and>
      1 \<le> day dt \<and> day dt \<le> days_in_month (year dt) (month dt) \<and>
      hour dt \<le> 23 \<and> minute dt \<le> 59 \<and> second dt \<le> 59)"

definition make_datetime :: "nat \<times> nat \<times> nat \<times> nat \<times> nat \<times> nat \<Rightarrow> exn + datetime" where
  "make_datetime t =
     (case t of (y, mo, d, h, mi, s) \<Rightarrow>
        let dt = \<lparr>year = y, month = mo, day = d, hour = h, minute = mi, second = s\<rparr>
        in if valid_datetime dt then Inr dt else Inl ValueError)"

text \<open>\<^verbatim>\<open>calendar.month_name\<close>, index 0 unused.\<close>

definition month_name :: "string list" where
  "month_name = ['''', ''January'', ''February'', ''March'', ''April'', ''May'', ''June'', ''July'',
     ''August'', ''September'', ''October'', ''November'', ''December'']"

subsection \<open>strptime\<close>

text \<open>
  \<^verbatim>\<open>datetime.strptime\<close> turns the format into a regular expression, matches it at the
  start of the text with backtracking and without case, and raises \<^verbatim>\<open>ValueError\<close>
  when nothing matches or text is left over. A matcher returns its successes in the
  order the backtracking engine tries them, so the head of the list is the match found.
  Of the directives, those the program's formats use are modelled; any other matches
  nothing. Digits and white space are the ASCII ones: Python's \<^verbatim>\<open>\d\<close> and
  \<^verbatim>\<open>\s\<close> match the other Unicode digits and spaces too, so a text that holds such
  a character may be skipped here and parsed by the program. On a text of ASCII
  characters the two agree.
\<close>

datatype fmt_tok = Directive char | Literal char | Whitespace

definition is_space :: "char \<Rightarrow> bool" where
  "is_space c = (c \<in> set [CHR 0x09, CHR 0x0A, CHR 0x0B, CHR 0x0C, CHR 0x0D,
                           CHR 0x1C, CHR 0x1D, CHR 0x1E, CHR 0x1F, CHR 0x20])"

text \<open>A run of white space in the format becomes one \<^verbatim>\<open>\s+\<close>.\<close>

function fmt_tokens :: "string \<Rightarrow> fmt_tok list" where
  "fmt_tokens [] = []"
| "fmt_tokens (c # cs) =
     (if is_space c then Whitespace # fmt_tokens (dropWhile is_space cs)
      else if c = CHR ''%'' then
        (case cs of [] \<Rightarrow> [Directive c]
         | d # ds \<Rightarrow> (if d = CHR ''%'' then Literal d else Directive d) # fmt_tokens ds)
      else Literal c # fmt_tokens cs)"
  by pat_completeness auto
termination
  by (relation "measure length") (auto simp: less_Suc_eq_le length_dropWhile_le)

definition is_digit :: "char \<Rightarrow> bool" where
  "is_digit c = (c \<in> set ''0123456789'')"

text \<open>A character class such as \<^verbatim>\<open>[0-5]\<close>, given by its characters.\<close>

definition in_class :: "char \<Rightarrow> string \<Rightarrow> bool" where
  "in_class c cls = (c \<in> set cls)"

text \<open>One character of a class, and two characters of two classes, read as a number.\<close>

fun one_of :: "string \<Rightarrow> string \<Rightarrow> (nat \<times> string) list" where
  "one_of cls (a # rest) = (if in_class a cls then [(digit_val a, rest)] else [])"
| "one_of cls [] = []"

fun two_of :: "string \<Rightarrow> string \<Rightarrow> string \<Rightarrow> (nat \<times> string) list" where
  "two_of cls1 cls2 (a # b # rest) =
     (if in_class a cls1 \<and> in_class b cls2 then [(10 * digit_val a + digit_val b, rest)] else [])"
| "two_of cls1 cls2 [a] = []"
| "two_of cls1 cls2 [] = []"

text \<open>\<^verbatim>\<open>\d\d\d\d\<close>\<close>

fun re_Y :: "string \<Rightarrow> (nat \<times> string) list" where
  "re_Y (a # b # c # d # rest) =
     (if is_digit a \<and> is_digit b \<and> is_digit c \<and> is_digit d
      then [(1000 * digit_val a + 100 * digit_val b + 10 * digit_val c + digit_val d, rest)]
      else [])"
| "re_Y [a, b, c] = []"
| "re_Y [a, b] = []"
| "re_Y [a] = []"
| "re_Y [] = []"

text \<open>\<^verbatim>\<open>1[0-2]|0[1-9]|[1-9]\<close>\<close>

definition re_m :: "string \<Rightarrow> (nat \<times> string) list" where
  "re_m s = two_of ''1'' ''012'' s @ two_of ''0'' ''123456789'' s @ one_of ''123456789'' s"

text \<open>\<^verbatim>\<open>3[0-1]|[1-2]\d|0[1-9]|[1-9]| [1-9]\<close>; \<^verbatim>\<open>int\<close> ignores the blank of the last one.\<close>

definition re_d :: "string \<Rightarrow> (nat \<times> string) list" where
  "re_d s = two_of ''3'' ''01'' s @ two_of ''12'' ''0123456789'' s @ two_of ''0'' ''123456789'' s
            @ one_of ''123456789'' s
            @ (case s of [] \<Rightarrow> [] | a # rest \<Rightarrow> if a = CHR '' '' then one_of ''123456789'' rest else [])"

text \<open>\<^verbatim>\<open>2[0-3]|[0-1]\d|\d\<close>\<close>

definition re_H :: "string \<Rightarrow> (nat \<times> string) list" where
  "re_H s = two_of ''2'' ''0123'' s @ two_of ''01'' ''0123456789'' s @ one_of ''0123456789'' s"

text \<open>\<^verbatim>\<open>[0-5]\d|\d\<close>\<close>

definition re_M :: "string \<Rightarrow> (nat \<times> string) list" where
  "re_M s = two_of ''012345'' ''0123456789'' s @ one_of ''0123456789'' s"

text \<open>\<^verbatim>\<open>6[0-1]|[0-5]\d|\d\<close>\<close>

definition re_S :: "string \<Rightarrow> (nat \<times> string) list" where
  "re_S s = two_of ''6'' ''01'' s @ two_of ''012345'' ''0123456789'' s @ one_of ''0123456789'' s"

text \<open>
  \<^verbatim>\<open>%B\<close>: the full month names, the longest first; the value is the index of the
  lowercased match in the lowercased \<^verbatim>\<open>month_name\<close>.
\<close>

definition months_longest_first :: "nat list" where
  "months_longest_first = [9, 2, 11, 12, 1, 10, 8, 3, 4, 6, 7, 5]"

definition re_B :: "string \<Rightarrow> (nat \<times> string) list" where
  "re_B s = concat (map (\<lambda>i. let name = lower (month_name ! i) in
                if startswith (lower (take (length name) s)) name
                then [(i, drop (length name) s)] else [])
              months_longest_first)"

definition re_directive :: "char \<Rightarrow> string \<Rightarrow> (nat \<times> string) list" where
  "re_directive d s =
     (if d = CHR ''Y'' then re_Y s
      else if d = CHR ''m'' then re_m s
      else if d = CHR ''d'' then re_d s
      else if d = CHR ''H'' then re_H s
      else if d = CHR ''M'' then re_M s
      else if d = CHR ''S'' then re_S s
      else if d = CHR ''B'' then re_B s
      else [])"

text \<open>\<^verbatim>\<open>\s+\<close> is greedy: the longest run first, down to one character.\<close>

definition re_spaces :: "string \<Rightarrow> string list" where
  "re_spaces s = map (\<lambda>k. drop k s) (rev [1 ..< Suc (length (takeWhile is_space s))])"

fun match_toks :: "fmt_tok list \<Rightarrow> (char \<times> nat) list \<Rightarrow> string \<Rightarrow> ((char \<times> nat) list \<times> string) list"
  where
  "match_toks [] found s = [(found, s)]"
| "match_toks (Literal c # ts) found s =
     (case s of [] \<Rightarrow> []
      | a # rest \<Rightarrow> if lower_char a = lower_char c then match_toks ts found rest else [])"
| "match_toks (Whitespace # ts) found s =
     concat (map (\<lambda>rest. match_toks ts found rest) (re_spaces s))"
| "match_toks (Directive d # ts) found s =
     concat (map (\<lambda>(v, rest). match_toks ts (found @ [(d, v)]) rest) (re_directive d s))"

text \<open>The groups found set the fields; a field no group sets keeps its default.\<close>

fun apply_group :: "char \<times> nat \<Rightarrow> nat \<times> nat \<times> nat \<times> nat \<times> nat \<times> nat
                     \<Rightarrow> nat \<times> nat \<times> nat \<times> nat \<times> nat \<times> nat" where
  "apply_group (k, v) (y, mo, d, h, mi, s) =
     (if k = CHR ''Y'' then (v, mo, d, h, mi, s)
      else if k = CHR ''m'' \<or> k = CHR ''B'' then (y, v, d, h, mi, s)
      else if k = CHR ''d'' then (y, mo, v, h, mi, s)
      else if k = CHR ''H'' then (y, mo, d, v, mi, s)
      else if k = CHR ''M'' then (y, mo, d, h, v, s)
      else if k = CHR ''S'' then (y, mo, d, h, mi, v)
      else (y, mo, d, h, mi, s))"

definition strptime :: "string \<Rightarrow> string \<Rightarrow> exn + datetime" where
  "strptime data_string format =
     (case match_toks (fmt_tokens format) [] data_string of
        [] \<Rightarrow> Inl ValueError
      | (found, rest) # _ \<Rightarrow>
          if rest \<noteq> [] then Inl ValueError
          else make_datetime (fold apply_group found (1900, 1, 1, 0, 0, 0)))"

subsection \<open>strftime\<close>

text \<open>
  \<^verbatim>\<open>%Z\<close> prints the zone name, which is empty for a naive datetime; the zone name
  is a parameter, for the strings an export may hold. \<^verbatim>\<open>%Y\<close> prints the year as the
  C library of the platform does; glibc does not pad it, so a year below 1000 has fewer
  than four digits.
\<close>

definition fmt_directive :: "string \<Rightarrow> datetime \<Rightarrow> char \<Rightarrow> string" where
  "fmt_directive tzname dt d =
     (if d = CHR ''Y'' then dec (year dt)
      else if d = CHR ''m'' then zpad 2 (dec (month dt))
      else if d = CHR ''d'' then zpad 2 (dec (day dt))
      else if d = CHR ''H'' then zpad 2 (dec (hour dt))
      else if d = CHR ''M'' then zpad 2 (dec (minute dt))
      else if d = CHR ''S'' then zpad 2 (dec (second dt))
      else if d = CHR ''B'' then month_name ! month dt
      else if d = CHR ''Z'' then tzname
      else if d = CHR ''%'' then [d]
      else [CHR ''%'', d])"

fun strftime_tz :: "string \<Rightarrow> datetime \<Rightarrow> string \<Rightarrow> string" where
  "strftime_tz tzname dt (c # d # cs) =
     (if c = CHR ''%'' then fmt_directive tzname dt d @ strftime_tz tzname dt cs
      else c # strftime_tz tzname dt (d # cs))"
| "strftime_tz tzname dt [c] = [c]"
| "strftime_tz tzname dt [] = []"

definition strftime :: "datetime \<Rightarrow> string \<Rightarrow> string" where
  "strftime dt format = strftime_tz [] dt format"

section \<open>load_memories\<close>

record memory =
  datetime :: datetime
  date_str :: string
  media_type :: json
  location :: json
  url :: json

definition date_formats :: "string list" where
  "date_formats = [''%Y-%m-%d %H:%M:%S %Z'', ''%Y-%m-%d %H:%M:%S'', ''%B %d, %Y'']"

text \<open>The loop over the formats: the first format that parses wins.\<close>

fun parse_date :: "string \<Rightarrow> string list \<Rightarrow> datetime option" where
  "parse_date ds [] = None"
| "parse_date ds (fmt # fmts) =
     (case strptime (replace '' UTC'' [] ds) (replace '' %Z'' [] fmt) of
        Inr dt \<Rightarrow> Some dt
      | Inl e \<Rightarrow> parse_date ds fmts)"

text \<open>
  The body of the loop over the items: \<open>Inr None\<close> is \<^verbatim>\<open>continue\<close> (the item is
  skipped), \<open>Inl\<close> an exception that nothing catches.
\<close>

definition normalize_item :: "json \<Rightarrow> exn + memory option" where
  "normalize_item item =
     (case item of
        JObj kvs \<Rightarrow>
          let ds = py_or (dict_get kvs ''Date'') (dict_get kvs ''date'');
              mt = py_or (py_or (dict_get kvs ''Media Type'') (dict_get kvs ''media_type'')) (JStr []);
              loc = py_or (py_or (dict_get kvs ''Location'') (dict_get kvs ''location'')) (JStr []);
              media_download_url =
                py_or (py_or (dict_get kvs ''Media Download Url'') (dict_get kvs ''Media Download URL''))
                      (dict_get kvs ''media_download_url'');
              wrapper_link = py_or (dict_get kvs ''Download Link'') (dict_get kvs ''download_link'');
              download_link = py_or media_download_url wrapper_link
          in if \<not> truthy ds \<or> \<not> truthy download_link then Inr None
             else (case ds of
                     JStr s \<Rightarrow>
                       (case parse_date s date_formats of
                          None \<Rightarrow> Inr None
                        | Some dt \<Rightarrow>
                            Inr (Some \<lparr>datetime = dt, date_str = s, media_type = mt,
                                       location = loc, url = download_link\<rparr>))
                   | _ \<Rightarrow> Inl AttributeError)
      | _ \<Rightarrow> Inl AttributeError)"

fun load_items :: "json list \<Rightarrow> exn + memory list" where
  "load_items [] = Inr []"
| "load_items (item # items) =
     (case normalize_item item of
        Inl e \<Rightarrow> Inl e
      | Inr r \<Rightarrow>
          (case load_items items of
             Inl e \<Rightarrow> Inl e
           | Inr ms \<Rightarrow> Inr (case r of None \<Rightarrow> ms | Some m \<Rightarrow> m # ms)))"

text \<open>
  \<^verbatim>\<open>data.get("Saved Media", [])\<close> and what \<^verbatim>\<open>len\<close> and \<^verbatim>\<open>enumerate\<close> make of it:
  a string is iterated by character and an object by key, a repeated key once, at its
  first place.
\<close>

definition saved_media :: "json \<Rightarrow> exn + json list" where
  "saved_media data =
     (case data of
        JObj members \<Rightarrow>
          (case map_of (rev members) ''Saved Media'' of
             None \<Rightarrow> Inr []
           | Some (JArr xs) \<Rightarrow> Inr xs
           | Some (JStr s) \<Rightarrow> Inr (map (\<lambda>c. JStr [c]) s)
           | Some (JObj kvs) \<Rightarrow> Inr (map JStr (rev (remdups (rev (map fst kvs)))))
           | Some _ \<Rightarrow> Inl TypeError)
      | _ \<Rightarrow> Inl AttributeError)"

definition load_memories :: "json \<Rightarrow> exn + memory list" where
  "load_memories data =
     (case saved_media data of Inl e \<Rightarrow> Inl e | Inr items \<Rightarrow> load_items items)"

section \<open>download_media_files\<close>

type_synonym bytes = "char list"

text \<open>
  What the program cannot decide by itself is a parameter: the answer of the network to
  a request, what \<^verbatim>\<open>zipfile\<close> finds in a payload (the names of the entries in
  archive order, and the bytes \<^verbatim>\<open>read\<close> returns for a name), whether the media
  directory can be created, and whether the file at a path of the output directory can be
  written.
\<close>

datatype http_result =
    Http_URLError
  | Http_Timeout
  | Http_Exception
  | Http_Response bytes string

datatype zip_error = BadZipFile | ZipException

record env =
  urlopen :: "string \<Rightarrow> http_result"
  zip_namelist :: "bytes \<Rightarrow> zip_error + string list"
  zip_read :: "bytes \<Rightarrow> string \<Rightarrow> zip_error + bytes"
  mkdir_ok :: bool
  can_write :: "string \<Rightarrow> bool"

record downloaded = memory +
  local_path :: string

text \<open>
  The extension, from the lowercased media type and the URL. \<^verbatim>\<open>url.lower()\<close> is only
  reached in the last branch, and raises when the URL is not text.
\<close>

definition choose_ext :: "string \<Rightarrow> json \<Rightarrow> exn + string" where
  "choose_ext mt u =
     (if contains ''video'' mt then Inr ''mp4''
      else if contains ''image'' mt \<or> contains ''photo'' mt then Inr ''jpg''
      else (case u of
              JStr us \<Rightarrow>
                let url_lower = lower us
                in Inr (if contains ''.mp4'' url_lower then ''mp4''
                        else if contains ''.mov'' url_lower then ''mov''
                        else if contains ''.jpg'' url_lower \<or> contains ''.jpeg'' url_lower then ''jpg''
                        else if contains ''.png'' url_lower then ''png''
                        else ''jpg'')
            | _ \<Rightarrow> Inl AttributeError))"

text \<open>\<^verbatim>\<open>f"{timestamp}_{idx:04d}.{ext}"\<close>\<close>

definition make_filename :: "datetime \<Rightarrow> nat \<Rightarrow> string \<Rightarrow> string" where
  "make_filename dt idx ext =
     strftime dt ''%Y%m%d_%H%M%S'' @ ''_'' @ zpad 4 (dec idx) @ ''.'' @ ext"

definition zip_magic :: bytes where
  "zip_magic = [CHR ''P'', CHR ''K'', CHR 0x03, CHR 0x04]"

definition is_zip :: "string \<Rightarrow> bytes \<Rightarrow> bool" where
  "is_zip content_type data = (contains ''zip'' content_type \<or> take 4 data = zip_magic)"

definition media_suffixes :: "string list" where
  "media_suffixes = [''.mp4'', ''.mov'', ''.jpg'', ''.jpeg'', ''.png'', ''.heic'']"

text \<open>The two searches through the names of the archive.\<close>

definition find_main_file :: "string list \<Rightarrow> string option" where
  "find_main_file names =
     (case find (\<lambda>name. contains ''-main.'' name) names of
        Some main_file \<Rightarrow> Some main_file
      | None \<Rightarrow>
          find (\<lambda>name. \<not> contains ''-overlay'' name \<and> \<not> contains ''overlay'' (lower name) \<and>
                        list_ex (\<lambda>e. endswith (lower name) e) media_suffixes) names)"

text \<open>
  How fetching ends for one item; each outcome is one of the progress lines the program
  prints. The two successes carry the bytes to write to the local file. A URL that is not
  text makes no request: \<^verbatim>\<open>urllib\<close> refuses it with a \<^verbatim>\<open>ValueError\<close> or a
  \<^verbatim>\<open>URLError\<close>, and the program prints one of its two lines for those (\<open>Bad_url\<close>).
\<close>

datatype outcome =
    Saved bytes
  | Saved_from_zip string bytes
  | No_media_in_zip
  | Invalid_zip
  | Network_error
  | Timeout
  | Other_error
  | Bad_url

definition zip_failure :: "zip_error \<Rightarrow> outcome" where
  "zip_failure z = (case z of BadZipFile \<Rightarrow> Invalid_zip | ZipException \<Rightarrow> Other_error)"

definition fetch_item :: "env \<Rightarrow> json \<Rightarrow> outcome" where
  "fetch_item e u =
     (case u of
        JStr us \<Rightarrow>
          (case urlopen e us of
             Http_URLError \<Rightarrow> Network_error
           | Http_Timeout \<Rightarrow> Timeout
           | Http_Exception \<Rightarrow> Other_error
           | Http_Response data content_type \<Rightarrow>
               if is_zip (lower content_type) data then
                 (case zip_namelist e data of
                    Inl z \<Rightarrow> zip_failure z
                  | Inr names \<Rightarrow>
                      (case find_main_file names of
                         None \<Rightarrow> No_media_in_zip
                       | Some main_file \<Rightarrow>
                           (case zip_read e data main_file of
                              Inl z \<Rightarrow> zip_failure z
                            | Inr content \<Rightarrow> Saved_from_zip main_file content)))
               else Saved data)
      | _ \<Rightarrow> Bad_url)"

definition written :: "outcome \<Rightarrow> bytes option" where
  "written oc = (case oc of Saved data \<Rightarrow> Some data | Saved_from_zip name data \<Rightarrow> Some data | _ \<Rightarrow> None)"

text \<open>
  The state of the loop: the two lists the program keeps, the files of the output
  directory by relative path, and the progress line of every item so far. A write that
  fails raises inside the \<^verbatim>\<open>try\<close> block: the item joins the failed list under the
  line for any other exception, and the files are taken to stay as they were.
\<close>

record dl_state =
  downloaded_items :: "downloaded list"
  failed :: "memory list"
  files :: "string \<rightharpoonup> bytes"
  progress :: "outcome list"

definition download_step :: "env \<Rightarrow> nat \<Rightarrow> memory \<Rightarrow> dl_state \<Rightarrow> exn + dl_state" where
  "download_step e idx item st =
     (case media_type item of
        JStr mt \<Rightarrow>
          (case choose_ext (lower mt) (url item) of
             Inl x \<Rightarrow> Inl x
           | Inr ext \<Rightarrow>
               let filename = make_filename (datetime item) idx ext;
                   relative_path = ''media/'' @ filename;
                   oc = fetch_item e (url item)
               in (case written oc of
                     Some data \<Rightarrow>
                       if can_write e relative_path then
                         Inr (st\<lparr>downloaded_items := downloaded_items st @
                                    [\<lparr>datetime = datetime item, date_str = date_str item,
                                      media_type = media_type item, location = location item,
                                      url = url item, local_path = relative_path\<rparr>],
                                 files := (files st)(relative_path \<mapsto> data),
                                 progress := progress st @ [oc]\<rparr>)
                       else
                         Inr (st\<lparr>failed := failed st @ [item],
                                 progress := progress st @ [Other_error]\<rparr>)
                   | None \<Rightarrow>
                       Inr (st\<lparr>failed := failed st @ [item], progress := progress st @ [oc]\<rparr>)))
      | _ \<Rightarrow> Inl AttributeError)"

text \<open>An exception of a step ends the loop; what was written before it stays written.\<close>

fun download_loop :: "env \<Rightarrow> nat \<Rightarrow> memory list \<Rightarrow> dl_state \<Rightarrow> exn option \<times> dl_state" where
  "download_loop e idx [] st = (None, st)"
| "download_loop e idx (item # items) st =
     (case download_step e idx item st of
        Inl x \<Rightarrow> (Some x, st)
      | Inr st' \<Rightarrow> download_loop e (Suc idx) items st')"

text \<open>
  \<^verbatim>\<open>media_dir.mkdir\<close> comes first, outside any \<^verbatim>\<open>try\<close>: when the directory cannot
  be created the \<^verbatim>\<open>OSError\<close> ends the function before the loop.
\<close>

definition download_media_files ::
    "env \<Rightarrow> memory list \<Rightarrow> (string \<rightharpoonup> bytes) \<Rightarrow> exn option \<times> dl_state" where
  "download_media_files e items fs =
     (if mkdir_ok e then
        download_loop e 0 items \<lparr>downloaded_items = [], failed = [], files = fs, progress = []\<rparr>
      else (Some OSError, \<lparr>downloaded_items = [], failed = [], files = fs, progress = []\<rparr>))"

section \<open>group_by_year_month\<close>

text \<open>
  A \<^verbatim>\<open>defaultdict\<close> in insertion order: reading a missing key gives the default, and
  changing the value of a missing key appends the key.
\<close>

fun dd_update :: "'k \<Rightarrow> 'v \<Rightarrow> ('v \<Rightarrow> 'v) \<Rightarrow> ('k \<times> 'v) list \<Rightarrow> ('k \<times> 'v) list" where
  "dd_update k dflt f [] = [(k, f dflt)]"
| "dd_update k dflt f ((k', v) # kvs) =
     (if k' = k then (k', f v) # kvs else (k', v) # dd_update k dflt f kvs)"

definition dd_get :: "('k \<times> 'v list) list \<Rightarrow> 'k \<Rightarrow> 'v list" where
  "dd_get kvs k = (case map_of kvs k of None \<Rightarrow> [] | Some v \<Rightarrow> v)"

text \<open>
  \<^verbatim>\<open>sorted(xs, key=f, reverse=True)\<close>: descending and stable, equal keys keep their
  order.
\<close>

definition sorted_reverse :: "('a \<Rightarrow> 'b::linorder) \<Rightarrow> 'a list \<Rightarrow> 'a list" where
  "sorted_reverse f xs = rev (sort_key f (rev xs))"

type_synonym 'a grouped = "(nat \<times> (nat \<times> 'a list) list) list"

text \<open>\<^verbatim>\<open>grouped[dt.year][dt.month].append(item)\<close>\<close>

definition group_insert :: "'a memory_scheme \<Rightarrow> 'a memory_scheme grouped \<Rightarrow> 'a memory_scheme grouped" where
  "group_insert item grouped =
     dd_update (year (datetime item)) []
       (dd_update (month (datetime item)) [] (\<lambda>items. items @ [item])) grouped"

definition group_by_year_month :: "'a memory_scheme list \<Rightarrow> 'a memory_scheme grouped" where
  "group_by_year_month items =
     (let grouped = fold group_insert items []
      in map (\<lambda>y. (y, let months = dd_get grouped y
                      in map (\<lambda>m. (m, sorted_reverse (\<lambda>x. dt_key (datetime x)) (dd_get months m)))
                           (sorted_reverse id (map fst months))))
           (sorted_reverse id (map fst grouped)))"

section \<open>build_html\<close>

text \<open>\<^verbatim>\<open>{'s' if n != 1 else ''}\<close>\<close>

definition plural :: "nat \<Rightarrow> string" where
  "plural n = (if n \<noteq> 1 then ''s'' else [])"

text \<open>
  \<^verbatim>\<open>"video" in item["media_type"].lower()\<close>. A media type that is not text raises
  there; the renderer checks that first (see \<open>build_html\<close>).
\<close>

definition is_video :: "'a memory_scheme \<Rightarrow> bool" where
  "is_video item = (case media_type item of JStr mt \<Rightarrow> contains ''video'' (lower mt) | _ \<Rightarrow> False)"

definition html_head :: "nat \<Rightarrow> nat \<Rightarrow> nat \<Rightarrow> string" where
  "html_head total_items total_years total_months =
     concat [
       ''<!DOCTYPE html>\<newline>'',
       ''<html lang='en'>\<newline>'',
       ''<head>\<newline>'',
       ''  <meta charset='UTF-8'>\<newline>'',
       ''  <meta name='viewport' content='width=device-width, initial-scale=1.0'>\<newline>'',
       ''  <title>Snapchat Memories</title>\<newline>'',
       ''  <link rel='preconnect' href='https://fonts.googleapis.com'>\<newline>'',
       ''  <link rel='preconnect' href='https://fonts.gstatic.com' crossorigin>\<newline>'',
       ''  <link href='https://fonts.googleapis.com/css2?family=Manrope:wght@400;600;700&display=swap' rel='stylesheet'>\<newline>'',
       ''  <style>\<newline>'',
       ''    * { box-sizing: border-box; }\<newline>'',
       ''    \<newline>'',
       ''    body {\<newline>'',
       ''      margin: 0;\<newline>'',
       ''      font-family: -apple-system, BlinkMacSystemFont, 'Segoe UI', system-ui, sans-serif;\<newline>'',
       ''      background: #ffffff;\<newline>'',
       ''      color: #1a1a1a;\<newline>'',
       ''    }\<newline>'',
       ''    \<newline>'',
       ''    .page {\<newline>'',
       ''      max-width: 1120px;\<newline>'',
       ''      margin: 0 auto;\<newline>'',
       ''      padding: 32px 20px 64px;\<newline>'',
       ''    }\<newline>'',
       ''    \<newline>'',
       ''    header {\<newline>'',
       ''      margin-bottom: 32px;\<newline>'',
       ''      text-align: center;\<newline>'',
       ''    }\<newline>'',
       ''    \<newline>'',
       ''    h1 {\<newline>'',
       ''      font-size: 2.5rem;\<newline>'',
       ''      margin: 0 0 8px;\<newline>'',
       ''      font-weight: 700;\<newline>'',
       ''      font-family: 'Manrope', sans-serif;\<newline>'',
       ''    }\<newline>'',
       ''    \<newline>'',
       ''    .chip {\<newline>'',
       ''      display: inline-block;\<newline>'',
       ''      padding: 4px 12px;\<newline>'',
       ''      background: #f0f0f0;\<newline>'',
       ''      border-radius: 12px;\<newline>'',
       ''      font-size: 0.8rem;\<newline>'',
       ''      margin: 8px 0;\<newline>'',
       ''    }\<newline>'',
       ''    \<newline>'',
       ''    .subtitle {\<newline>'',
       ''      color: #666;\<newline>'',
       ''      font-size: 1rem;\<newline>'',
       ''      margin: 16px 0;\<newline>'',
       ''      line-height: 1.5;\<newline>'',
       ''    }\<newline>'',
       ''    \<newline>'',
       ''    .stats {\<newline>'',
       ''      display: flex;\<newline>'',
       ''      gap: 12px;\<newline>'',
       ''      justify-content: center;\<newline>'',
       ''      margin: 16px 0;\<newline>'',
       ''      flex-wrap: wrap;\<newline>'',
       ''    }\<newline>'',
       ''    \<newline>'',
       ''    .stat {\<newline>'',
       ''      padding: 8px 16px;\<newline>'',
       ''      background: #f8f9fa;\<newline>'',
       ''      border-radius: 20px;\<newline>'',
       ''      font-size: 0.9rem;\<newline>'',
       ''      border: 1px solid #e0e0e0;\<newline>'',
       ''    }\<newline>'',
       ''    \<newline>'',
       ''    .year-group {\<newline>'',
       ''      margin-bottom: 32px;\<newline>'',
       ''    }\<newline>'',
       ''    \<newline>'',
       ''    .year-header {\<newline>'',
       ''      font-size: 1.8rem;\<newline>'',
       ''      font-weight: 700;\<newline>'',
       ''      margin-bottom: 16px;\<newline>'',
       ''      padding-bottom: 12px;\<newline>'',
       ''      border-bottom: 2px solid #e0e0e0;\<newline>'',
       ''    }\<newline>'',
       ''    \<newline>'',
       ''    .year-summary {\<newline>'',
       ''      font-size: 0.9rem;\<newline>'',
       ''      color: #666;\<newline>'',
       ''      font-weight: 400;\<newline>'',
       ''      margin-top: 4px;\<newline>'',
       ''    }\<newline>'',
       ''    \<newline>'',
       ''    .month {\<newline>'',
       ''      margin-bottom: 16px;\<newline>'',
       ''      border: 1px solid #e0e0e0;\<newline>'',
       ''      border-radius: 12px;\<newline>'',
       ''      overflow: hidden;\<newline>'',
       ''    }\<newline>'',
       ''    \<newline>'',
       ''    .month-header {\<newline>'',
       ''      padding: 16px 20px;\<newline>'',
       ''      background: #f8f9fa;\<newline>'',
       ''      cursor: pointer;\<newline>'',
       ''      display: flex;\<newline>'',
       ''      justify-content: space-between;\<newline>'',
       ''      align-items: center;\<newline>'',
       ''      user-select: none;\<newline>'',
       ''    }\<newline>'',
       ''    \<newline>'',
       ''    .month-header:hover {\<newline>'',
       ''      background: #f0f0f0;\<newline>'',
       ''    }\<newline>'',
       ''    \<newline>'',
       ''    .month-title {\<newline>'',
       ''      font-size: 1.1rem;\<newline>'',
       ''      font-weight: 600;\<newline>'',
       ''    }\<newline>'',
       ''    \<newline>'',
       ''    .month-count {\<newline>'',
       ''      font-size: 0.85rem;\<newline>'',
       ''      color: #666;\<newline>'',
       ''      margin-top: 2px;\<newline>'',
       ''    }\<newline>'',
       ''    \<newline>'',
       ''    .month-badges {\<newline>'',
       ''      display: flex;\<newline>'',
       ''      gap: 8px;\<newline>'',
       ''      align-items: center;\<newline>'',
       ''    }\<newline>'',
       ''    \<newline>'',
       ''    .badge {\<newline>'',
       ''      padding: 4px 10px;\<newline>'',
       ''      background: white;\<newline>'',
       ''      border: 1px solid #e0e0e0;\<newline>'',
       ''      border-radius: 12px;\<newline>'',
       ''      font-size: 0.75rem;\<newline>'',
       ''      color: #666;\<newline>'',
       ''    }\<newline>'',
       ''    \<newline>'',
       ''    .chevron {\<newline>'',
       ''      margin-left: 8px;\<newline>'',
       ''      transition: transform 0.2s;\<newline>'',
       ''    }\<newline>'',
       ''    \<newline>'',
       ''    .month.open .chevron {\<newline>'',
       ''      transform: rotate(90deg);\<newline>'',
       ''    }\<newline>'',
       ''    \<newline>'',
       ''    .month-content {\<newline>'',
       ''      max-height: 0;\<newline>'',
       ''      overflow: hidden;\<newline>'',
       ''      transition: max-height 0.3s ease;\<newline>'',
       ''      background: #fafafa;\<newline>'',
       ''    }\<newline>'',
       ''    \<newline>'',
       ''    .month.open .month-content {\<newline>'',
       ''      max-height: 10000px;\<newline>'',
       ''    }\<newline>'',
       ''    \<newline>'',
       ''    .grid {\<newline>'',
       ''      display: grid;\<newline>'',
       ''      grid-template-columns: repeat(auto-fill, minmax(180px, 1fr));\<newline>'',
       ''      gap: 14px;\<newline>'',
       ''      padding: 20px;\<newline>'',
       ''    }\<newline>'',
       ''    \<newline>'',
       ''    .card {\<newline>'',
       ''      background: white;\<newline>'',
       ''      border: 1px solid #e0e0e0;\<newline>'',
       ''      border-radius: 8px;\<newline>'',
       ''      overflow: hidden;\<newline>'',
       ''      box-shadow: 0 2px 4px rgba(0,0,0,0.06);\<newline>'',
       ''    }\<newline>'',
       ''    \<newline>'',
       ''    .media {\<newline>'',
       ''      width: 100%;\<newline>'',
       ''      aspect-ratio: 9/16;\<newline>'',
       ''      object-fit: cover;\<newline>'',
       ''      background: #f0f0f0;\<newline>'',
       ''      display: block;\<newline>'',
       ''    }\<newline>'',
       ''    \<newline>'',
       ''    video.media {\<newline>'',
       ''      object-fit: cover;\<newline>'',
       ''      background: #000;\<newline>'',
       ''    }\<newline>'',
       ''    \<newline>'',
       ''    .card-footer {\<newline>'',
       ''      padding: 10px;\<newline>'',
       ''      text-align: center;\<newline>'',
       ''      font-size: 0.8rem;\<newline>'',
       ''      color: #666;\<newline>'',
       ''    }\<newline>'',
       ''    \<newline>'',
       ''    .type-badge {\<newline>'',
       ''      position: absolute;\<newline>'',
       ''      top: 8px;\<newline>'',
       ''      left: 8px;\<newline>'',
       ''      padding: 4px 10px;\<newline>'',
       ''      background: rgba(255,255,255,0.95);\<newline>'',
       ''      border-radius: 12px;\<newline>'',
       ''      font-size: 0.7rem;\<newline>'',
       ''      text-transform: uppercase;\<newline>'',
       ''      letter-spacing: 0.05em;\<newline>'',
       ''    }\<newline>'',
       ''    \<newline>'',
       ''    .media-wrapper {\<newline>'',
       ''      position: relative;\<newline>'',
       ''    }\<newline>'',
       ''    \<newline>'',
       ''    @media (max-width: 768px) {\<newline>'',
       ''      .grid {\<newline>'',
       ''        grid-template-columns: repeat(auto-fill, minmax(150px, 1fr));\<newline>'',
       ''        gap: 12px;\<newline>'',
       ''        padding: 12px;\<newline>'',
       ''      }\<newline>'',
       ''      \<newline>'',
       ''      h1 {\<newline>'',
       ''        font-size: 2rem;\<newline>'',
       ''      }\<newline>'',
       ''    }\<newline>'',
       ''  </style>\<newline>'',
       ''</head>\<newline>'',
       ''<body>\<newline>'',
       ''  <div class='page'>\<newline>'',
       ''    <header>\<newline>'',
       ''      <h1>'',
       [CHR 0xF0, CHR 0x9F, CHR 0x93, CHR 0xB8],
       '' Snapchat Archives</h1>\<newline>'',
       ''      <div class='chip'>Memories Saved Offline</div>\<newline>'',
       ''      <p class='subtitle'>\<newline>'',
       ''        Don't pay for a Snapchat subscription! All memories are stored locally, so you're memories won't expire.\<newline>'',
       ''      </p>\<newline>'',
       ''      <div class='stats'>\<newline>'',
       ''        <div class='stat'>'',
       dec total_items,
       '' memories</div>\<newline>'',
       ''        <div class='stat'>'',
       dec total_years,
       '' years</div>\<newline>'',
       ''        <div class='stat'>'',
       dec total_months,
       '' months</div>\<newline>'',
       ''      </div>\<newline>'',
       ''    </header>\<newline>'',
       ''    \<newline>'',
       ''    <main>\<newline>'']"

definition year_header_html :: "nat \<Rightarrow> (nat \<times> downloaded list) list \<Rightarrow> string" where
  "year_header_html y months =
     (let year_count = sum_list (map (\<lambda>(m, items). length items) months)
      in concat [
       ''\<newline>'',
       ''      <div class='year-group'>\<newline>'',
       ''        <div class='year-header'>\<newline>'',
       ''          '',
       dec y,
       ''\<newline>'',
       ''          <div class='year-summary'>'',
       dec year_count,
       '' snap'',
       plural year_count,
       '' '',
       [CHR 0xC2, CHR 0xB7],
       '' '',
       dec (length months),
       '' month'',
       plural (length months),
       ''</div>\<newline>'',
       ''        </div>\<newline>''])"

definition month_header_html :: "nat \<Rightarrow> downloaded list \<Rightarrow> string" where
  "month_header_html month_num items =
     (let count = length items;
          vid_count = length (filter is_video items);
          img_count = count - vid_count
      in concat [
       ''\<newline>'',
       ''        <div class='month'>\<newline>'',
       ''          <div class='month-header'>\<newline>'',
       ''            <div>\<newline>'',
       ''              <div class='month-title'>'',
       month_name ! month_num,
       ''</div>\<newline>'',
       ''              <div class='month-count'>'',
       dec count,
       '' item'',
       plural count,
       ''</div>\<newline>'',
       ''            </div>\<newline>'',
       ''            <div class='month-badges'>\<newline>'',
       ''              <span class='badge'>'',
       dec vid_count,
       '' video'',
       plural vid_count,
       ''</span>\<newline>'',
       ''              <span class='badge'>'',
       dec img_count,
       '' photo'',
       plural img_count,
       ''</span>\<newline>'',
       ''              <span class='chevron'>'',
       [CHR 0xE2, CHR 0x96, CHR 0xB6],
       ''</span>\<newline>'',
       ''            </div>\<newline>'',
       ''          </div>\<newline>'',
       ''          <div class='month-content'>\<newline>'',
       ''            <div class='grid'>\<newline>''])"

definition card_html :: "downloaded \<Rightarrow> string" where
  "card_html item =
     (let date_label = strftime (datetime item) ''%B %d, %Y'';
          media_html =
            (if is_video item then
               concat [
            ''<video class='media' controls preload='metadata' src='',
            [CHR 0x27],
            local_path item,
            '''></video>'']
             else
               concat [
            ''<img class='media' src='',
            [CHR 0x27],
            local_path item,
            ''' alt='',
            [CHR 0x27],
            date_label,
            ''' loading='lazy'>'']);
          type_badge =
            (if is_video item then
               concat [
            ''<div class='type-badge'>'',
            [CHR 0xE2, CHR 0x96, CHR 0xB6],
            '' Video</div>'']
             else
               concat [
            ''<div class='type-badge'>'',
            [CHR 0xF0, CHR 0x9F, CHR 0x93, CHR 0xB7],
            '' Photo</div>''])
      in concat [
       ''\<newline>'',
       ''              <div class='card'>\<newline>'',
       ''                <div class='media-wrapper'>\<newline>'',
       ''                  '',
       type_badge,
       ''\<newline>'',
       ''                  '',
       media_html,
       ''\<newline>'',
       ''                </div>\<newline>'',
       ''                <div class='card-footer'>'',
       date_label,
       ''</div>\<newline>'',
       ''              </div>\<newline>''])"

definition month_end_html :: string where
  "month_end_html =
     concat [
       ''\<newline>'',
       ''            </div>\<newline>'',
       ''          </div>\<newline>'',
       ''        </div>\<newline>'']"

definition year_end_html :: string where
  "year_end_html =
     concat [
       ''\<newline>'',
       ''      </div>\<newline>'']"

definition html_tail :: string where
  "html_tail =
     concat [
       ''\<newline>'',
       ''    </main>\<newline>'',
       ''  </div>\<newline>'',
       ''  \<newline>'',
       ''  <script>\<newline>'',
       ''    // Accordion functionality\<newline>'',
       ''    document.addEventListener('DOMContentLoaded', function() {\<newline>'',
       ''      const months = document.querySelectorAll('.month');\<newline>'',
       ''      \<newline>'',
       ''      // Open first month by default\<newline>'',
       ''      if (months[0]) {\<newline>'',
       ''        months[0].classList.add('open');\<newline>'',
       ''      }\<newline>'',
       ''      \<newline>'',
       ''      months.forEach(month => {\<newline>'',
       ''        const header = month.querySelector('.month-header');\<newline>'',
       ''        header.addEventListener('click', () => {\<newline>'',
       ''          month.classList.toggle('open');\<newline>'',
       ''        });\<newline>'',
       ''      });\<newline>'',
       ''    });\<newline>'',
       ''  </script>\<newline>'',
       ''</body>\<newline>'',
       ''</html>\<newline>'']"

definition month_html :: "nat \<Rightarrow> downloaded list \<Rightarrow> string" where
  "month_html month_num items =
     month_header_html month_num items @ concat (map card_html items) @ month_end_html"

definition year_html :: "nat \<Rightarrow> (nat \<times> downloaded list) list \<Rightarrow> string" where
  "year_html y months =
     year_header_html y months @ concat (map (\<lambda>(month_num, items). month_html month_num items) months)
     @ year_end_html"

definition render :: "downloaded grouped \<Rightarrow> string" where
  "render grouped =
     (let total_items = sum_list (map (\<lambda>(y, months). sum_list (map (\<lambda>(m, items). length items) months)) grouped);
          total_years = length grouped;
          total_months = sum_list (map (\<lambda>(y, months). length months) grouped)
      in html_head total_items total_years total_months
         @ concat (map (\<lambda>(y, months). year_html y months) grouped)
         @ html_tail)"

definition text_media_type :: "'a memory_scheme \<Rightarrow> bool" where
  "text_media_type item = (case media_type item of JStr mt \<Rightarrow> True | _ \<Rightarrow> False)"

text \<open>
  The page, or the \<^verbatim>\<open>AttributeError\<close> of \<^verbatim>\<open>.lower()\<close> on a media type that is not
  text.
\<close>

definition build_html :: "downloaded grouped \<Rightarrow> exn + string" where
  "build_html grouped =
     (if list_all (\<lambda>(y, months). list_all (\<lambda>(m, items). list_all text_media_type items) months) grouped
      then Inr (render grouped)
      else Inl AttributeError)"

section \<open>main\<close>

text \<open>
  The world of one run: whether the input file exists, what opening and parsing it gives,
  the files already in the output directory, and the answers of the network, of the
  archive reader and of the file system. \<^verbatim>\<open>output_path.write_text\<close> has no handler:
  when the gallery cannot be written the \<^verbatim>\<open>OSError\<close> ends the run.
\<close>

record world = env +
  json_exists :: bool
  json_load :: "exn + json"
  disk :: "string \<rightharpoonup> bytes"

text \<open>
  The exit status (1 for \<^verbatim>\<open>sys.exit(1)\<close> and for an exception nothing catches, 0 for a
  normal return), the files of the output directory at the end, and how many records were
  normalized and downloaded when the run ended.
\<close>

record run =
  exit_code :: nat
  raised :: "exn option"
  loaded :: nat
  fetched :: nat
  out_files :: "string \<rightharpoonup> bytes"

definition main :: "'a world_scheme \<Rightarrow> run" where
  "main w =
     (if \<not> json_exists w then
        \<lparr>exit_code = 1, raised = None, loaded = 0, fetched = 0, out_files = disk w\<rparr>
      else
        (case json_load w of
           Inl x \<Rightarrow> \<lparr>exit_code = 1, raised = Some x, loaded = 0, fetched = 0, out_files = disk w\<rparr>
         | Inr data \<Rightarrow>
             (case load_memories data of
                Inl x \<Rightarrow> \<lparr>exit_code = 1, raised = Some x, loaded = 0, fetched = 0, out_files = disk w\<rparr>
              | Inr memories \<Rightarrow>
                  if memories = [] then
                    \<lparr>exit_code = 1, raised = None, loaded = 0, fetched = 0, out_files = disk w\<rparr>
                  else
                    (case download_media_files (env.truncate w) memories (disk w) of
                       (Some x, st) \<Rightarrow>
                         \<lparr>exit_code = 1, raised = Some x, loaded = length memories,
                          fetched = length (downloaded_items st), out_files = files st\<rparr>
                     | (None, st) \<Rightarrow>
                         if downloaded_items st = [] then
                           \<lparr>exit_code = 1, raised = None, loaded = length memories, fetched = 0,
                            out_files = files st\<rparr>
                         else
                           (case build_html (group_by_year_month (downloaded_items st)) of
                              Inl x \<Rightarrow>
                                \<lparr>exit_code = 1, raised = Some x, loaded = length memories,
                                 fetched = length (downloaded_items st), out_files = files st\<rparr>
                            | Inr html \<Rightarrow>
                                if can_write w ''memories_gallery.html'' then
                                  \<lparr>exit_code = 0, raised = None, loaded = length memories,
                                   fetched = length (downloaded_items st),
                                   out_files = (files st)(''memories_gallery.html'' \<mapsto> html)\<rparr>
                                else
                                  \<lparr>exit_code = 1, raised = Some OSError, loaded = length memories,
                                   fetched = length (downloaded_items st), out_files = files st\<rparr>)))))"

section \<open>The extension rule as a table\<close>

text \<open>
  The rule for a media type that names neither a video nor an image, read as a table:
  the first pattern that occurs anywhere in the lowercased URL decides, and \<open>jpg\<close> is
  the default.
\<close>

definition url_ext_table :: "(string \<times> string) list" where
  "url_ext_table =
     [(''.mp4'', ''mp4''), (''.mov'', ''mov''), (''.jpg'', ''jpg''), (''.jpeg'', ''jpg''), (''.png'', ''png'')]"

definition ext_rule :: "string \<Rightarrow> string \<Rightarrow> string" where
  "ext_rule mt u =
     (if contains ''video'' (lower mt) then ''mp4''
      else if contains ''image'' (lower mt) \<or> contains ''photo'' (lower mt) then ''jpg''
      else (case find (\<lambda>row. contains (fst row) (lower u)) url_ext_table of
              Some row \<Rightarrow> snd row
            | None \<Rightarrow> ''jpg''))"



section \<open>Sample inputs\<close>

definition plain_env :: env where
  "plain_env = \<lparr>urlopen = (\<lambda>u. Http_Response ''JFIF-bytes'' ''image/jpeg''),
                 zip_namelist = (\<lambda>d. Inl BadZipFile),
                 zip_read = (\<lambda>d n. Inl BadZipFile),
                 mkdir_ok = True,
                 can_write = (\<lambda>p. True)\<rparr>"



definition sample_memory :: memory where
  "sample_memory = \<lparr>datetime = \<lparr>year = 2023, month = 5, day = 1, hour = 10, minute = 0, second = 0\<rparr>,
     date_str = ''2023-05-01 10:00:00 UTC'', media_type = JStr ''Image'', location = JStr [],
     url = JStr ''https://cdn.example/a''\<rparr>"


section \<open>Notions used to state the properties of the fetcher\<close>

text \<open>\<^verbatim>\<open>int(s)\<close> for a string of digits.\<close>

definition undec :: "string \<Rightarrow> nat" where
  "undec s = fold (\<lambda>c n. 10 * n + digit_val c) s 0"

text \<open>The extensions \<open>choose_ext\<close> can return.\<close>

definition known_exts :: "string list" where
  "known_exts = [''mp4'', ''jpg'', ''mov'', ''png'']"

text \<open>The local paths of the items with an index below \<open>n\<close>.\<close>

definition paths_below :: "nat \<Rightarrow> string set" where
  "paths_below n = {''media/'' @ make_filename dt i ext | dt i ext. i < n \<and> ext \<in> set known_exts}"

text \<open>
  The invariant of the download loop: the local paths so far are distinct, belong to
  earlier indices, and every downloaded record's file holds the bytes written for it.
\<close>

definition files_kept :: "nat \<Rightarrow> dl_state \<Rightarrow> bool" where
  "files_kept n st =
     (distinct (map local_path (downloaded_items st)) \<and>
      set (map local_path (downloaded_items st)) \<subseteq> paths_below n \<and>
      map (\<lambda>r. files st (local_path r)) (downloaded_items st) =
        map written (filter (\<lambda>oc. written oc \<noteq> None) (progress st)))"

section \<open>Notions used to state the properties of the grouper\<close>

text \<open>The contents of all buckets of an index, one after the other.\<close>

definition buckets :: "'a grouped \<Rightarrow> 'a list" where
  "buckets g = concat (map (\<lambda>ym. concat (map snd (snd ym))) g)"

text \<open>Every item lies in the bucket of its own year and month.\<close>

definition keyed :: "'a memory_scheme grouped \<Rightarrow> bool" where
  "keyed g = list_all (\<lambda>ym. list_all (\<lambda>mi. list_all (\<lambda>x. year (datetime x) = fst ym \<and> month (datetime x) = fst mi) (snd mi)) (snd ym)) g"

text \<open>No year occurs twice, and within a year no month occurs twice.\<close>

definition keys_distinct :: "'a grouped \<Rightarrow> bool" where
  "keys_distinct g = (distinct (map fst g) \<and> list_all (\<lambda>ym. distinct (map fst (snd ym))) g)"


text \<open>Five records: two with the same timestamp, and one each in another year, month and hour.\<close>

definition sample_items :: "memory list" where
  "sample_items =
     [sample_memory,
      sample_memory\<lparr>date_str := ''May 01, 2023''\<rparr>,
      sample_memory\<lparr>datetime := (datetime sample_memory)\<lparr>year := 2024\<rparr>\<rparr>,
      sample_memory\<lparr>datetime := (datetime sample_memory)\<lparr>month := 7, day := 3\<rparr>\<rparr>,
      sample_memory\<lparr>datetime := (datetime sample_memory)\<lparr>hour := 11\<rparr>\<rparr>]"

section \<open>Notions used to state the properties of the loader and of the run\<close>

text \<open>The accepted spellings of the URL key, and records that carry none of the keys.\<close>

definition url_keys :: "string list" where
  "url_keys = [''Media Download Url'', ''Media Download URL'', ''media_download_url'',
               ''Download Link'', ''download_link'']"

definition lacks_date :: "(string \<times> json) list \<Rightarrow> bool" where
  "lacks_date kvs = list_all (\<lambda>k. k \<notin> fst ` set kvs) [''Date'', ''date'']"

definition lacks_url :: "(string \<times> json) list \<Rightarrow> bool" where
  "lacks_url kvs = list_all (\<lambda>k. k \<notin> fst ` set kvs) url_keys"

text \<open>The records the loader leaves out.\<close>

definition excluded :: "json \<Rightarrow> bool" where
  "excluded item = (normalize_item item = Inr None)"

text \<open>Records of an export, and worlds to run the program in.\<close>

definition image_item :: json where
  "image_item = JObj [(''Date'', JStr ''2023-05-01 10:00:00 UTC''), (''Media Type'', JStr ''Image''),
                      (''Media Download Url'', JStr ''https://cdn.example/a'')]"

definition video_item :: json where
  "video_item = JObj [(''Date'', JStr ''2023-01-15 09:30:00 UTC''), (''Media Type'', JStr ''Video''),
                      (''Media Download Url'', JStr ''https://cdn.example/b'')]"

definition undated_item :: json where
  "undated_item = JObj [(''Media Type'', JStr ''Image''), (''Media Download Url'', JStr ''https://cdn.example/c'')]"








section \<open>Notions used to state the properties of the date parser\<close>

text \<open>A number written with a fixed count of digits, and the first element of a list of
  matches (the match that the regular expression engine reports).\<close>

fun fixed :: "nat \<Rightarrow> nat \<Rightarrow> string" where
  "fixed 0 n = []"
| "fixed (Suc w) n = fixed w (n div 10) @ [digit_chr (n mod 10)]"

definition first_is :: "'a list \<Rightarrow> 'a \<Rightarrow> bool" where
  "first_is xs x = (case xs of [] \<Rightarrow> False | y # ys \<Rightarrow> y = x)"

section \<open>Substrings\<close>

lemma startswith_iff: "startswith s p \<longleftrightarrow> (\<exists>r. s = p @ r)"
  by (induction s p rule: startswith.induct) auto

lemma endswith_iff: "endswith s e \<longleftrightarrow> (\<exists>a. s = a @ e)"
proof -
  have "endswith s e \<longleftrightarrow> (\<exists>r. rev s = rev e @ r)"
    by (simp add: endswith_def startswith_iff)
  also have "\<dots> \<longleftrightarrow> (\<exists>a. s = a @ e)"
  proof
    assume "\<exists>r. rev s = rev e @ r"
    then obtain r where "rev s = rev e @ r" by blast
    then have "rev (rev s) = rev (rev e @ r)" by simp
    then have "s = rev r @ e" by simp
    then show "\<exists>a. s = a @ e" by blast
  next
    assume "\<exists>a. s = a @ e"
    then obtain a where "s = a @ e" by blast
    then have "rev s = rev e @ rev a" by simp
    then show "\<exists>r. rev s = rev e @ r" by blast
  qed
  finally show ?thesis .
qed

lemma contains_iff: "contains p s \<longleftrightarrow> (\<exists>a b. s = a @ p @ b)"
proof (induction s)
  case Nil
  then show ?case by auto
next
  case (Cons c cs)
  show ?case
  proof
    assume "contains p (c # cs)"
    then consider "startswith (c # cs) p" | "contains p cs" by auto
    then show "\<exists>a b. c # cs = a @ p @ b"
    proof cases
      case 1
      then obtain r where "c # cs = p @ r" by (auto simp: startswith_iff)
      then have "c # cs = [] @ p @ r" by simp
      then show ?thesis by blast
    next
      case 2
      then obtain a b where "cs = a @ p @ b" using Cons.IH by blast
      then have "c # cs = (c # a) @ p @ b" by simp
      then show ?thesis by blast
    qed
  next
    assume "\<exists>a b. c # cs = a @ p @ b"
    then obtain a b where ab: "c # cs = a @ p @ b" by blast
    show "contains p (c # cs)"
    proof (cases a)
      case Nil
      then have "startswith (c # cs) p" using ab by (simp add: startswith_iff)
      then show ?thesis by simp
    next
      case (Cons x a')
      then have "cs = a' @ p @ b" using ab by simp
      then show ?thesis using Cons.IH by auto
    qed
  qed
qed

lemma endswith_contains: "endswith s e \<Longrightarrow> contains e s"
proof -
  assume "endswith s e"
  then obtain a where "s = a @ e @ []" by (auto simp: endswith_iff)
  then show ?thesis unfolding contains_iff by blast
qed





section \<open>The choice of the extension\<close>

text \<open>
  C3, counterexample: with an empty media type, a URL that ends in \<open>.png\<close> gets the
  extension \<open>mp4\<close> when \<open>.mp4\<close> occurs earlier in it, and a URL that does not end in
  \<open>.png\<close> gets \<open>png\<close> when \<open>.png\<close> occurs inside it: the patterns are looked for
  anywhere in the URL, not at its end.
\<close>

theorem ext_suffix_counterexample:
  "endswith (lower ''https://example.com/get?file=a.mp4&thumb=b.png'') ''.png'' \<and>
   choose_ext (lower []) (JStr ''https://example.com/get?file=a.mp4&thumb=b.png'') = Inr ''mp4'' \<and>
   \<not> endswith (lower ''https://example.com/b.png?sig=abc'') ''.png'' \<and>
   choose_ext (lower []) (JStr ''https://example.com/b.png?sig=abc'') = Inr ''png''"
  by (simp add: choose_ext_def endswith_def lower_def lower_char_def)

text \<open>
  C3, amended: the extension is a function of the media type and the URL alone, by the
  priority order \<open>mp4\<close> for a media type containing "video", \<open>jpg\<close> for one containing
  "image" or "photo", else the first of \<open>.mp4\<close>, \<open>.mov\<close>, \<open>.jpg\<close>/\<open>.jpeg\<close> (both
  \<open>jpg\<close>), \<open>.png\<close> that occurs anywhere in the lowercased URL, else \<open>jpg\<close>. The media
  type "Video" gives \<open>mp4\<close> whatever the URL; an empty media type gives \<open>png\<close> for a URL
  that ends in \<open>.png\<close> and contains none of the earlier patterns, and \<open>jpg\<close> for a URL
  that contains none of the patterns.
\<close>

theorem ext_rule_correct:
  "choose_ext (lower mt) (JStr u) = Inr (ext_rule mt u) \<and>
   choose_ext (lower ''Video'') v = Inr ''mp4'' \<and>
   (endswith (lower u) ''.png'' \<and> \<not> contains ''.mp4'' (lower u) \<and> \<not> contains ''.mov'' (lower u) \<and>
    \<not> contains ''.jpg'' (lower u) \<and> \<not> contains ''.jpeg'' (lower u)
      \<longrightarrow> choose_ext (lower []) (JStr u) = Inr ''png'') \<and>
   ((\<forall>row \<in> set url_ext_table. \<not> contains (fst row) (lower u))
      \<longrightarrow> choose_ext (lower []) (JStr u) = Inr ''jpg'')"
proof (intro conjI impI)
  show "choose_ext (lower mt) (JStr u) = Inr (ext_rule mt u)"
    by (simp add: choose_ext_def ext_rule_def url_ext_table_def)
  show "choose_ext (lower ''Video'') v = Inr ''mp4''"
    by (simp add: choose_ext_def lower_def lower_char_def)
next
  assume a: "endswith (lower u) ''.png'' \<and> \<not> contains ''.mp4'' (lower u) \<and>
    \<not> contains ''.mov'' (lower u) \<and> \<not> contains ''.jpg'' (lower u) \<and> \<not> contains ''.jpeg'' (lower u)"
  then have "contains ''.png'' (lower u)" by (simp add: endswith_contains)
  with a show "choose_ext (lower []) (JStr u) = Inr ''png''"
    by (simp add: choose_ext_def lower_def)
next
  assume "\<forall>row \<in> set url_ext_table. \<not> contains (fst row) (lower u)"
  then show "choose_ext (lower []) (JStr u) = Inr ''jpg''"
    by (simp add: choose_ext_def url_ext_table_def lower_def)
qed

theorem ext_rule_correct_witness:
  "choose_ext (lower []) (JStr ''https://cdn.example/x.png'') = Inr ''png'' \<and>
   choose_ext (lower []) (JStr ''https://cdn.example/x.unknown'') = Inr ''jpg'' \<and>
   choose_ext (lower ''Video'') (JStr ''https://cdn.example/x.png'') = Inr ''mp4''"
proof -
  have 1: "endswith (lower ''https://cdn.example/x.png'') ''.png'' \<and>
      \<not> contains ''.mp4'' (lower ''https://cdn.example/x.png'') \<and>
      \<not> contains ''.mov'' (lower ''https://cdn.example/x.png'') \<and>
      \<not> contains ''.jpg'' (lower ''https://cdn.example/x.png'') \<and>
      \<not> contains ''.jpeg'' (lower ''https://cdn.example/x.png'')"
    by (simp add: endswith_def lower_def lower_char_def)
  have 2: "\<forall>row \<in> set url_ext_table. \<not> contains (fst row) (lower ''https://cdn.example/x.unknown'')"
    by (simp add: url_ext_table_def lower_def lower_char_def)
  from 1 ext_rule_correct [of "[]" "''https://cdn.example/x.png''"]
  have "choose_ext (lower []) (JStr ''https://cdn.example/x.png'') = Inr ''png''" by blast
  moreover from 2 ext_rule_correct [of "[]" "''https://cdn.example/x.unknown''"]
  have "choose_ext (lower []) (JStr ''https://cdn.example/x.unknown'') = Inr ''jpg''" by blast
  moreover from ext_rule_correct [of "[]" "[]" "JStr ''https://cdn.example/x.png''"]
  have "choose_ext (lower ''Video'') (JStr ''https://cdn.example/x.png'') = Inr ''mp4''" by blast
  ultimately show ?thesis by blast
qed

section \<open>The fetcher\<close>



lemma written_zip_failure: "written (zip_failure z) = None"
  by (cases z) (simp_all add: zip_failure_def written_def)







section \<open>File names\<close>

lemma digit_cases: "d < 10 \<Longrightarrow> d \<in> {0, 1, 2, 3, 4, 5, 6, 7, 8, 9::nat}"
  by auto

lemma digit_val_chr: "d < 10 \<Longrightarrow> digit_val (digit_chr d) = d"
  using digit_cases [of d] by (auto simp: digit_val_def digit_chr_def)

lemma digit_chr_is_digit: "d < 10 \<Longrightarrow> is_digit (digit_chr d)"
  using digit_cases [of d] by (auto simp: is_digit_def digit_chr_def)

lemma undec_snoc: "undec (s @ [c]) = 10 * undec s + digit_val c"
  by (simp add: undec_def)

lemma undec_dec: "undec (dec n) = n"
proof (induction n rule: dec.induct)
  case (1 n)
  show ?case
  proof (cases "n < 10")
    case True
    then show ?thesis by (simp add: dec.simps [of n] undec_def digit_val_chr)
  next
    case False
    then have "undec (dec n) = 10 * undec (dec (n div 10)) + digit_val (digit_chr (n mod 10))"
      by (simp add: dec.simps [of n] undec_snoc)
    also have "\<dots> = 10 * (n div 10) + n mod 10"
      using 1 False by (simp add: digit_val_chr)
    finally show ?thesis by simp
  qed
qed

lemma undec_zeros: "fold (\<lambda>c n. 10 * n + digit_val c) (replicate k (CHR ''0'')) 0 = 0"
  by (induction k) (simp_all add: digit_val_def)

lemma undec_zpad: "undec (zpad w (dec n)) = n"
proof -
  have "undec (zpad w (dec n)) = fold (\<lambda>c n. 10 * n + digit_val c) (dec n) 0"
    by (simp only: undec_def zpad_def fold_append o_apply undec_zeros)
  then show ?thesis using undec_dec [of n] by (simp only: undec_def)
qed

lemma zpad_dec_inj: "zpad w (dec i) = zpad w (dec j) \<Longrightarrow> i = j"
proof -
  assume "zpad w (dec i) = zpad w (dec j)"
  then have "undec (zpad w (dec i)) = undec (zpad w (dec j))" by simp
  then show "i = j" by (simp only: undec_zpad)
qed

lemma dec_digits: "set (dec n) \<subseteq> set ''0123456789''"
proof (induction n rule: dec.induct)
  case (1 n)
  have d: "\<And>k. k < 10 \<Longrightarrow> digit_chr k \<in> set ''0123456789''"
    using digit_chr_is_digit by (simp add: is_digit_def)
  show ?case
  proof (cases "n < 10")
    case True
    then show ?thesis using d [of n] by (simp add: dec.simps [of n])
  next
    case False
    have "n mod 10 < 10" by simp
    then have "digit_chr (n mod 10) \<in> set ''0123456789''" by (rule d)
    then show ?thesis using 1 False by (simp add: dec.simps [of n])
  qed
qed

lemma zpad_digits: "set (zpad w (dec n)) \<subseteq> set ''0123456789''"
  using dec_digits [of n] by (auto simp: zpad_def)

lemma split_first:
  "c \<notin> set p \<Longrightarrow> c \<notin> set p' \<Longrightarrow> p @ c # r = p' @ c # r' \<Longrightarrow> p = p' \<and> r = r'"
proof (induction p arbitrary: p')
  case Nil
  then show ?case by (cases p') auto
next
  case (Cons x p)
  then show ?case by (cases p') auto
qed

lemma split_last:
  assumes "a @ c # b = a' @ c # b'" and "c \<notin> set b" and "c \<notin> set b'"
  shows "a = a' \<and> b = b'"
proof -
  from assms(1) have "rev (a @ c # b) = rev (a' @ c # b')" by simp
  then have "rev b @ c # rev a = rev b' @ c # rev a'" by simp
  moreover have "c \<notin> set (rev b)" "c \<notin> set (rev b')" using assms by simp_all
  ultimately have "rev b = rev b' \<and> rev a = rev a'"
    using split_first [of c "rev b" "rev b'" "rev a" "rev a'"] by blast
  then show ?thesis by simp
qed

lemma choose_ext_known: "choose_ext m v = Inr ext \<Longrightarrow> ext \<in> set known_exts"
  by (auto simp: choose_ext_def known_exts_def Let_def split: if_splits json.splits)

lemma make_filename_inj:
  assumes "ext \<in> set known_exts" and "ext' \<in> set known_exts"
      and "make_filename dt i ext = make_filename dt' j ext'"
  shows "i = j"
proof -
  let ?a = "strftime dt ''%Y%m%d_%H%M%S'' @ ''_'' @ zpad 4 (dec i)"
  let ?a' = "strftime dt' ''%Y%m%d_%H%M%S'' @ ''_'' @ zpad 4 (dec j)"
  have dot: "CHR ''.'' \<notin> set ext" "CHR ''.'' \<notin> set ext'"
    using assms(1,2) by (auto simp: known_exts_def)
  have "?a @ CHR ''.'' # ext = ?a' @ CHR ''.'' # ext'"
    using assms(3) by (simp add: make_filename_def)
  then have "?a = ?a'" using dot split_last [of ?a "CHR ''.''" ext ?a' ext'] by blast
  then have e: "strftime dt ''%Y%m%d_%H%M%S'' @ CHR ''_'' # zpad 4 (dec i)
              = strftime dt' ''%Y%m%d_%H%M%S'' @ CHR ''_'' # zpad 4 (dec j)" by simp
  have "CHR ''_'' \<notin> set (zpad 4 (dec i))" "CHR ''_'' \<notin> set (zpad 4 (dec j))"
    using zpad_digits [of 4 i] zpad_digits [of 4 j] by auto
  with e have "zpad 4 (dec i) = zpad 4 (dec j)"
    using split_last [of "strftime dt ''%Y%m%d_%H%M%S''" "CHR ''_''" "zpad 4 (dec i)"
        "strftime dt' ''%Y%m%d_%H%M%S''" "zpad 4 (dec j)"] by blast
  then show ?thesis by (rule zpad_dec_inj)
qed


lemma paths_below_mono: "n \<le> m \<Longrightarrow> paths_below n \<subseteq> paths_below m"
  by (auto simp: paths_below_def) (metis less_le_trans)

lemma new_path_fresh:
  assumes "ext \<in> set known_exts"
  shows "''media/'' @ make_filename dt idx ext \<notin> paths_below idx"
proof
  assume "''media/'' @ make_filename dt idx ext \<in> paths_below idx"
  then obtain dt' i ext' where p: "''media/'' @ make_filename dt idx ext = ''media/'' @ make_filename dt' i ext'"
    and i: "i < idx" and e: "ext' \<in> set known_exts"
    unfolding paths_below_def by blast
  from p have "make_filename dt idx ext = make_filename dt' i ext'" by simp
  then have "idx = i" using assms e by (rule make_filename_inj [rotated 2])
  with i show False by simp
qed

lemma download_step_kept:
  assumes step: "download_step e idx item st = Inr st'" and inv: "files_kept idx st"
  shows "files_kept (Suc idx) st'"
proof -
  from step obtain mt where mt: "media_type item = JStr mt"
    by (auto simp: download_step_def split: json.splits)
  from step mt obtain ext where ext: "choose_ext (lower mt) (url item) = Inr ext"
    by (auto simp: download_step_def split: sum.splits)
  define p where "p = ''media/'' @ make_filename (datetime item) idx ext"
  define oc where "oc = fetch_item e (url item)"
  have known: "ext \<in> set known_exts" using ext by (rule choose_ext_known)
  have sub: "paths_below idx \<subseteq> paths_below (Suc idx)" by (rule paths_below_mono) simp
  consider (none) "written oc = None"
    | (unwritable) data where "written oc = Some data" "\<not> can_write e p"
    | (saved) data where "written oc = Some data" "can_write e p"
    by (cases "written oc") auto
  then show ?thesis
  proof cases
    case none
    then have "st' = st\<lparr>failed := failed st @ [item], progress := progress st @ [oc]\<rparr>"
      using step mt ext by (simp add: download_step_def Let_def oc_def)
    then show ?thesis using inv none sub by (auto simp: files_kept_def)
  next
    case unwritable
    then have "st' = st\<lparr>failed := failed st @ [item], progress := progress st @ [Other_error]\<rparr>"
      using step mt ext by (simp add: download_step_def Let_def oc_def p_def)
    then show ?thesis using inv sub by (auto simp: files_kept_def written_def)
  next
    case saved
    note Some = saved(1)
    have st': "st' = st\<lparr>downloaded_items := downloaded_items st @
                  [\<lparr>datetime = datetime item, date_str = date_str item,
                    media_type = media_type item, location = location item,
                    url = url item, local_path = p\<rparr>],
                files := (files st)(p \<mapsto> data),
                progress := progress st @ [oc]\<rparr>"
      using step mt ext saved by (simp add: download_step_def Let_def oc_def p_def)
    have "p \<notin> paths_below idx"
      unfolding p_def using known by (rule new_path_fresh)
    then have fresh: "\<forall>r \<in> set (downloaded_items st). local_path r \<noteq> p"
      using inv unfolding files_kept_def by auto
    have in_new: "p \<in> paths_below (Suc idx)"
      unfolding paths_below_def p_def using known by blast
    have old: "map (\<lambda>r. ((files st)(p \<mapsto> data)) (local_path r)) (downloaded_items st)
             = map (\<lambda>r. files st (local_path r)) (downloaded_items st)"
    proof (rule map_cong [OF refl])
      fix r assume "r \<in> set (downloaded_items st)"
      then have "local_path r \<noteq> p" using fresh by blast
      then show "((files st)(p \<mapsto> data)) (local_path r) = files st (local_path r)" by simp
    qed
    show ?thesis
      unfolding files_kept_def
    proof (intro conjI)
      show "distinct (map local_path (downloaded_items st'))"
        using inv fresh st' by (auto simp: files_kept_def)
      show "set (map local_path (downloaded_items st')) \<subseteq> paths_below (Suc idx)"
        using inv sub in_new st' by (auto simp: files_kept_def)
      show "map (\<lambda>r. files st' (local_path r)) (downloaded_items st') =
              map written (filter (\<lambda>oc. written oc \<noteq> None) (progress st'))"
        using inv old Some st' by (simp add: files_kept_def)
    qed
  qed
qed

lemma download_loop_kept:
  "download_loop e idx items st = (x, st') \<Longrightarrow> files_kept idx st \<Longrightarrow> \<exists>n. files_kept n st'"
proof (induction items arbitrary: idx st)
  case Nil
  then show ?case by auto
next
  case (Cons item items)
  show ?case
  proof (cases "download_step e idx item st")
    case (Inl err)
    then show ?thesis using Cons.prems by auto
  next
    case (Inr st1)
    then have "download_loop e (Suc idx) items st1 = (x, st')" using Cons.prems by simp
    moreover have "files_kept (Suc idx) st1" using Inr Cons.prems(2) by (rule download_step_kept)
    ultimately show ?thesis by (rule Cons.IH)
  qed
qed

text \<open>
  C10: two items at different positions get different file names, whatever their
  timestamps, media types and URLs, because the index is part of the name. So the local
  paths of one run are distinct, and at the end every downloaded record's file holds the
  bytes that were written for that record: no download overwrites another.
\<close>

theorem filenames_never_collide:
  "(choose_ext mt u = Inr ext \<and> choose_ext mt' u' = Inr ext' \<and> i \<noteq> j
      \<longrightarrow> make_filename dt i ext \<noteq> make_filename dt' j ext') \<and>
   (download_media_files e items fs = (x, st)
      \<longrightarrow> distinct (map local_path (downloaded_items st)) \<and>
          map (\<lambda>r. files st (local_path r)) (downloaded_items st) =
            map written (filter (\<lambda>oc. written oc \<noteq> None) (progress st)))"
proof (intro conjI impI)
  assume a: "choose_ext mt u = Inr ext \<and> choose_ext mt' u' = Inr ext' \<and> i \<noteq> j"
  then have "ext \<in> set known_exts" "ext' \<in> set known_exts"
    by (auto dest: choose_ext_known)
  then show "make_filename dt i ext \<noteq> make_filename dt' j ext'"
    using a make_filename_inj by blast
next
  assume a: "download_media_files e items fs = (x, st)"
  have "files_kept 0 \<lparr>downloaded_items = [], failed = [], files = fs, progress = []\<rparr>"
    by (simp add: files_kept_def)
  with a obtain n where n: "files_kept n st"
    unfolding download_media_files_def using download_loop_kept
    by (cases "mkdir_ok e") (simp, blast, auto)
  then show "distinct (map local_path (downloaded_items st))"
    by (simp add: files_kept_def)
  from n show "map (\<lambda>r. files st (local_path r)) (downloaded_items st) =
            map written (filter (\<lambda>oc. written oc \<noteq> None) (progress st))"
    by (simp add: files_kept_def)
qed

lemma same_item_twice: "map local_path (downloaded_items (snd (download_media_files plain_env [sample_memory, sample_memory] Map.empty)))
    = [''media/20230501_100000_0000.jpg'', ''media/20230501_100000_0001.jpg'']"
  by code_simp


theorem filenames_never_collide_witness:
  "make_filename (datetime sample_memory) 0 ''jpg'' \<noteq> make_filename (datetime sample_memory) 1 ''jpg'' \<and>
   distinct (map local_path (downloaded_items
     (snd (download_media_files plain_env [sample_memory, sample_memory] Map.empty)))) \<and>
   length (downloaded_items
     (snd (download_media_files plain_env [sample_memory, sample_memory] Map.empty))) = 2"
proof -
  have c: "choose_ext (lower ''Image'') (JStr ''https://cdn.example/a'') = Inr ''jpg''"
    by (simp add: choose_ext_def lower_def lower_char_def)
  have "(0::nat) \<noteq> 1" by simp
  with c filenames_never_collide [where mt = "lower ''Image''" and u = "JStr ''https://cdn.example/a''"
      and ext = "''jpg''" and mt' = "lower ''Image''" and u' = "JStr ''https://cdn.example/a''"
      and ext' = "''jpg''" and i = 0 and j = 1 and dt = "datetime sample_memory"
      and dt' = "datetime sample_memory"]
  have 1: "make_filename (datetime sample_memory) 0 ''jpg'' \<noteq> make_filename (datetime sample_memory) 1 ''jpg''"
    by blast
  have "download_media_files plain_env [sample_memory, sample_memory] Map.empty =
      (fst (download_media_files plain_env [sample_memory, sample_memory] Map.empty),
       snd (download_media_files plain_env [sample_memory, sample_memory] Map.empty))"
    by simp
  with filenames_never_collide [where e = plain_env and items = "[sample_memory, sample_memory]"
      and fs = Map.empty
      and x = "fst (download_media_files plain_env [sample_memory, sample_memory] Map.empty)"
      and st = "snd (download_media_files plain_env [sample_memory, sample_memory] Map.empty)"]
  have 2: "distinct (map local_path (downloaded_items
     (snd (download_media_files plain_env [sample_memory, sample_memory] Map.empty))))"
    by blast
  have "length (map local_path (downloaded_items
     (snd (download_media_files plain_env [sample_memory, sample_memory] Map.empty)))) = 2"
    by (simp only: same_item_twice) simp
  then have 3: "length (downloaded_items
     (snd (download_media_files plain_env [sample_memory, sample_memory] Map.empty))) = 2"
    by simp
  from 1 2 3 show ?thesis by blast
qed

section \<open>The grouper\<close>

lemma mset_sorted_reverse: "mset (sorted_reverse f xs) = mset xs"
  by (simp add: sorted_reverse_def)

lemma set_sorted_reverse: "set (sorted_reverse f xs) = set xs"
  by (simp add: sorted_reverse_def)

lemma distinct_sorted_reverse: "distinct (sorted_reverse id xs) = distinct xs"
  by (simp add: sorted_reverse_def)

lemma sorted_reverse_desc: "sorted_wrt (\<lambda>a b. f a \<ge> f b) (sorted_reverse f xs)"
proof -
  have "sorted (map f (sort_key f (rev xs)))" by simp
  then have "sorted_wrt (\<lambda>a b. f a \<le> f b) (sort_key f (rev xs))"
    by (simp add: sorted_map)
  then show ?thesis
    by (simp add: sorted_reverse_def sorted_wrt_rev)
qed

lemma desc_distinct_strict:
  "sorted_wrt (\<lambda>a b. (a::'a::linorder) \<ge> b) ys \<Longrightarrow> distinct ys \<Longrightarrow> sorted_wrt (\<lambda>a b. a > b) ys"
  by (induction ys) (auto simp: less_le)

lemma sorted_reverse_strict:
  "distinct xs \<Longrightarrow> sorted_wrt (\<lambda>a b. a > b) (sorted_reverse id xs)"
proof -
  assume d: "distinct xs"
  have "sorted_wrt (\<lambda>a b. id a \<ge> id b) (sorted_reverse id xs)" by (rule sorted_reverse_desc)
  then have "sorted_wrt (\<lambda>a b. a \<ge> b) (sorted_reverse id xs)" by simp
  moreover have "distinct (sorted_reverse id xs)" using d by (simp add: distinct_sorted_reverse)
  ultimately show ?thesis by (rule desc_distinct_strict)
qed

subsection \<open>The defaultdict\<close>

lemma dd_update_keys:
  "map fst (dd_update k d f kvs) = (if k \<in> set (map fst kvs) then map fst kvs else map fst kvs @ [k])"
proof (induction kvs)
  case Nil
  then show ?case by simp
next
  case (Cons kv kvs)
  obtain k' v where kv: "kv = (k', v)" by (cases kv)
  show ?case
  proof (cases "k' = k")
    case True
    then show ?thesis using kv by simp
  next
    case False
    show ?thesis
    proof (cases "k \<in> set (map fst kvs)")
      case True
      then show ?thesis using Cons kv False by simp
    next
      case False
      then show ?thesis using Cons kv \<open>k' \<noteq> k\<close> by simp
    qed
  qed
qed

lemma dd_update_distinct: "distinct (map fst kvs) \<Longrightarrow> distinct (map fst (dd_update k d f kvs))"
  by (simp add: dd_update_keys)

lemma dd_update_all:
  assumes "list_all (\<lambda>kv. Q (fst kv) (snd kv)) kvs" and "Q k (f d)" and "\<And>v. Q k v \<Longrightarrow> Q k (f v)"
  shows "list_all (\<lambda>kv. Q (fst kv) (snd kv)) (dd_update k d f kvs)"
  using assms by (induction kvs) auto

lemma dd_update_mset:
  assumes "\<And>v. mset (h (f v)) = add_mset x (mset (h v))" and "h d = []"
  shows "mset (concat (map (\<lambda>kv. h (snd kv)) (dd_update k d f kvs)))
         = add_mset x (mset (concat (map (\<lambda>kv. h (snd kv)) kvs)))"
  using assms by (induction kvs) auto

lemma dd_get_distinct: "distinct (map fst kvs) \<Longrightarrow> (k, v) \<in> set kvs \<Longrightarrow> dd_get kvs k = v"
  by (simp add: dd_get_def)

lemma dd_get_keys:
  assumes "distinct (map fst kvs)"
  shows "map (\<lambda>k. (k, F (dd_get kvs k))) (map fst kvs) = map (\<lambda>kv. (fst kv, F (snd kv))) kvs"
proof -
  have "\<And>kv. kv \<in> set kvs \<Longrightarrow> dd_get kvs (fst kv) = snd kv"
    using assms dd_get_distinct by (metis prod.collapse)
  then show ?thesis by (simp add: comp_def)
qed

lemma reorder_mset:
  assumes "distinct (map fst kvs)"
  shows "mset (map (\<lambda>k. (k, F (dd_get kvs k))) (sorted_reverse id (map fst kvs)))
         = mset (map (\<lambda>kv. (fst kv, F (snd kv))) kvs)"
proof -
  have "mset (map (\<lambda>k. (k, F (dd_get kvs k))) (sorted_reverse id (map fst kvs)))
        = mset (map (\<lambda>k. (k, F (dd_get kvs k))) (map fst kvs))"
    by (simp only: mset_map mset_sorted_reverse)
  then show ?thesis by (simp only: dd_get_keys [OF assms, of F])
qed

lemma concat_perm:
  assumes "mset xs = mset ys"
  shows "mset (concat (map h xs)) = mset (concat (map h ys))"
proof -
  have "\<And>zs. mset (concat (map h zs)) = sum_mset (image_mset (\<lambda>z. mset (h z)) (mset zs))"
    by (induct_tac zs) auto
  then show ?thesis using assms by simp
qed


lemma concat_cong_mset:
  "(\<And>z. z \<in> set zs \<Longrightarrow> mset (h z) = mset (h' z)) \<Longrightarrow> mset (concat (map h zs)) = mset (concat (map h' zs))"
  by (induction zs) auto

subsection \<open>The loop of group_by_year_month\<close>

lemma group_insert_keys_distinct:
  assumes "keys_distinct g"
  shows "keys_distinct (group_insert x g)"
proof -
  let ?f = "dd_update (month (datetime x)) [] (\<lambda>items. items @ [x])"
  have "list_all (\<lambda>kv. distinct (map fst (snd kv))) (dd_update (year (datetime x)) [] ?f g)"
  proof (rule dd_update_all [where Q = "\<lambda>k v. distinct (map fst v)"])
    show "list_all (\<lambda>kv. distinct (map fst (snd kv))) g"
      using assms by (simp add: keys_distinct_def)
    show "distinct (map fst (?f []))" by simp
    show "\<And>v. distinct (map fst v) \<Longrightarrow> distinct (map fst (?f v))"
      by (rule dd_update_distinct)
  qed
  moreover have "distinct (map fst (dd_update (year (datetime x)) [] ?f g))"
    using assms by (simp add: keys_distinct_def dd_update_distinct)
  ultimately show ?thesis by (simp add: keys_distinct_def group_insert_def)
qed

lemma group_insert_keyed:
  fixes x :: "'a memory_scheme" and g :: "'a memory_scheme grouped"
  assumes "keyed g"
  shows "keyed (group_insert x g)"
proof -
  let ?y = "year (datetime x)"
  let ?m = "month (datetime x)"
  let ?f = "dd_update ?m [] (\<lambda>items. items @ [x])"
  let ?Q' = "\<lambda>y m its. list_all (\<lambda>z. year (datetime z) = y \<and> month (datetime z) = m) its"
  let ?Q = "\<lambda>y ms. list_all (\<lambda>mi. ?Q' y (fst mi) (snd mi)) ms"
  have inner: "\<And>v. ?Q ?y v \<Longrightarrow> ?Q ?y (?f v)"
  proof -
    fix v :: "(nat \<times> 'a memory_scheme list) list"
    assume v: "?Q ?y v"
    show "?Q ?y (?f v)"
      by (rule dd_update_all [where Q = "?Q' ?y"]) (use v in simp_all)
  qed
  have "list_all (\<lambda>ym. ?Q (fst ym) (snd ym)) (dd_update ?y [] ?f g)"
  proof (rule dd_update_all [where Q = ?Q])
    show "list_all (\<lambda>ym. ?Q (fst ym) (snd ym)) g" using assms by (simp add: keyed_def)
    show "?Q ?y (?f [])" by simp
    show "\<And>v. ?Q ?y v \<Longrightarrow> ?Q ?y (?f v)" by (rule inner)
  qed
  then show ?thesis by (simp add: keyed_def group_insert_def)
qed

lemma group_insert_mset: "mset (buckets (group_insert x g)) = add_mset x (mset (buckets g))"
proof -
  let ?f = "dd_update (month (datetime x)) [] (\<lambda>items. items @ [x])"
  let ?h = "\<lambda>ms. concat (map (\<lambda>kv. id (snd kv)) ms)"
  have inner: "\<And>v. mset (?h (?f v)) = add_mset x (mset (?h v))"
    by (rule dd_update_mset) simp_all
  have "mset (concat (map (\<lambda>kv. ?h (snd kv)) (dd_update (year (datetime x)) [] ?f g)))
        = add_mset x (mset (concat (map (\<lambda>kv. ?h (snd kv)) g)))"
    by (rule dd_update_mset) (use inner in simp_all)
  then show ?thesis by (simp add: buckets_def group_insert_def)
qed

lemma fold_group_insert:
  "keys_distinct g \<Longrightarrow> keyed g \<Longrightarrow>
   keys_distinct (fold group_insert items g) \<and> keyed (fold group_insert items g) \<and>
   mset (buckets (fold group_insert items g)) = mset items + mset (buckets g)"
proof (induction items arbitrary: g)
  case Nil
  then show ?case by simp
next
  case (Cons x items)
  have "keys_distinct (group_insert x g)" "keyed (group_insert x g)"
    using Cons.prems by (simp_all add: group_insert_keys_distinct group_insert_keyed)
  from Cons.IH [OF this] show ?case by (simp add: group_insert_mset)
qed

lemma grouped_loop:
  "keys_distinct (fold group_insert items []) \<and> keyed (fold group_insert items []) \<and>
   mset (buckets (fold group_insert items [])) = mset items"
  using fold_group_insert [of "[]" items] by (simp add: keys_distinct_def keyed_def buckets_def)

subsection \<open>The ordered result\<close>

text \<open>The months of one year, and the whole index, in terms of the grouped items.\<close>

lemma group_by_year_month_unfold:
  "group_by_year_month items =
     map (\<lambda>y. (y, map (\<lambda>m. (m, sorted_reverse (\<lambda>x. dt_key (datetime x))
                               (dd_get (dd_get (fold group_insert items []) y) m)))
                  (sorted_reverse id (map fst (dd_get (fold group_insert items []) y)))))
       (sorted_reverse id (map fst (fold group_insert items [])))"
  by (simp add: group_by_year_month_def Let_def)

lemma in_keys_dd_get:
  assumes "distinct (map fst kvs)" and "k \<in> set (map fst kvs)"
  shows "(k, dd_get kvs k) \<in> set kvs"
proof -
  from assms(2) obtain v where "(k, v) \<in> set kvs" by auto
  then show ?thesis using dd_get_distinct [OF assms(1)] by metis
qed


lemma result_entry:
  assumes "(y, ms) \<in> set (group_by_year_month items)"
  shows "(y, dd_get (fold group_insert items []) y) \<in> set (fold group_insert items []) \<and>
         ms = map (\<lambda>m. (m, sorted_reverse (\<lambda>x. dt_key (datetime x))
                               (dd_get (dd_get (fold group_insert items []) y) m)))
                  (sorted_reverse id (map fst (dd_get (fold group_insert items []) y)))"
proof -
  let ?g = "fold group_insert items []"
  from assms have y: "y \<in> set (map fst ?g)"
    and ms: "ms = map (\<lambda>m. (m, sorted_reverse (\<lambda>x. dt_key (datetime x)) (dd_get (dd_get ?g y) m)))
                  (sorted_reverse id (map fst (dd_get ?g y)))"
    unfolding group_by_year_month_unfold by (auto simp: set_sorted_reverse)
  have "distinct (map fst ?g)" using grouped_loop [of items] by (simp add: keys_distinct_def)
  then have "(y, dd_get ?g y) \<in> set ?g" using y by (rule in_keys_dd_get)
  with ms show ?thesis by simp
qed

lemma result_bucket:
  assumes "(y, ms) \<in> set (group_by_year_month items)" and "(m, its) \<in> set ms"
  shows "(m, dd_get (dd_get (fold group_insert items []) y) m) \<in> set (dd_get (fold group_insert items []) y) \<and>
         its = sorted_reverse (\<lambda>x. dt_key (datetime x)) (dd_get (dd_get (fold group_insert items []) y) m)"
proof -
  let ?g = "fold group_insert items []"
  let ?months = "dd_get ?g y"
  from result_entry [OF assms(1)] have e: "(y, ?months) \<in> set ?g"
    and ms: "ms = map (\<lambda>m. (m, sorted_reverse (\<lambda>x. dt_key (datetime x)) (dd_get ?months m)))
                  (sorted_reverse id (map fst ?months))" by simp_all
  have "list_all (\<lambda>ym. distinct (map fst (snd ym))) ?g"
    using grouped_loop [of items] by (simp add: keys_distinct_def)
  then have d: "distinct (map fst ?months)" using e by (auto simp: list_all_iff)
  from assms(2) ms have m: "m \<in> set (map fst ?months)"
    and its: "its = sorted_reverse (\<lambda>x. dt_key (datetime x)) (dd_get ?months m)"
    by (auto simp: set_sorted_reverse)
  from d m have "(m, dd_get ?months m) \<in> set ?months" by (rule in_keys_dd_get)
  with its show ?thesis by simp
qed

lemma months_mset:
  assumes "distinct (map fst months)"
  shows "mset (concat (map snd (map (\<lambda>m. (m, sorted_reverse f (dd_get months m)))
                                  (sorted_reverse id (map fst months)))))
         = mset (concat (map snd months))"
proof -
  have "mset (map (\<lambda>m. (m, sorted_reverse f (dd_get months m))) (sorted_reverse id (map fst months)))
        = mset (map (\<lambda>kv. (fst kv, sorted_reverse f (snd kv))) months)"
    by (rule reorder_mset [OF assms])
  then have "mset (concat (map snd (map (\<lambda>m. (m, sorted_reverse f (dd_get months m)))
                                  (sorted_reverse id (map fst months)))))
        = mset (concat (map snd (map (\<lambda>kv. (fst kv, sorted_reverse f (snd kv))) months)))"
    by (rule concat_perm)
  also have "\<dots> = mset (concat (map (\<lambda>kv. sorted_reverse f (snd kv)) months))"
    by (simp add: comp_def)
  also have "\<dots> = mset (concat (map snd months))"
    by (rule concat_cong_mset) (simp add: mset_sorted_reverse)
  finally show ?thesis .
qed

lemma result_mset: "mset (buckets (group_by_year_month items)) = mset items"
proof -
  let ?g = "fold group_insert items []"
  let ?G = "\<lambda>months. map (\<lambda>m. (m, sorted_reverse (\<lambda>x. dt_key (datetime x)) (dd_get months m)))
                  (sorted_reverse id (map fst months))"
  have kd: "keys_distinct ?g" using grouped_loop [of items] by simp
  then have d: "distinct (map fst ?g)" by (simp add: keys_distinct_def)
  have "mset (group_by_year_month items) = mset (map (\<lambda>kv. (fst kv, ?G (snd kv))) ?g)"
    unfolding group_by_year_month_unfold by (rule reorder_mset [OF d])
  then have "mset (buckets (group_by_year_month items))
      = mset (concat (map (\<lambda>ym. concat (map snd (snd ym))) (map (\<lambda>kv. (fst kv, ?G (snd kv))) ?g)))"
    unfolding buckets_def by (rule concat_perm)
  also have "\<dots> = mset (concat (map (\<lambda>kv. concat (map snd (?G (snd kv)))) ?g))"
    by (simp add: comp_def)
  also have "\<dots> = mset (concat (map (\<lambda>kv. concat (map snd (snd kv))) ?g))"
  proof (rule concat_cong_mset)
    fix kv assume "kv \<in> set ?g"
    then have "distinct (map fst (snd kv))"
      using kd by (auto simp: keys_distinct_def list_all_iff)
    then show "mset (concat (map snd (?G (snd kv)))) = mset (concat (map snd (snd kv)))"
      by (rule months_mset)
  qed
  also have "\<dots> = mset (buckets ?g)" by (simp add: buckets_def)
  also have "\<dots> = mset items" using grouped_loop [of items] by simp
  finally show ?thesis .
qed

lemma result_keys: "map fst (group_by_year_month items) = sorted_reverse id (map fst (fold group_insert items []))"
  unfolding group_by_year_month_unfold by (simp add: comp_def)

text \<open>
  C4: the buckets of the index partition the input. Their contents taken together are
  the input as a multiset; no year and, within a year, no month occurs twice; and every
  record lies in the bucket of the year and month of its own timestamp.
\<close>

theorem grouping_is_partition:
  "mset (buckets (group_by_year_month items)) = mset items \<and>
   distinct (map fst (group_by_year_month items)) \<and>
   (\<forall>(y, months) \<in> set (group_by_year_month items).
      distinct (map fst months) \<and>
      (\<forall>(m, its) \<in> set months. \<forall>x \<in> set its. year (datetime x) = y \<and> month (datetime x) = m))"
proof (intro conjI)
  let ?g = "fold group_insert items []"
  show "mset (buckets (group_by_year_month items)) = mset items" by (rule result_mset)
  have kd: "keys_distinct ?g" and keyed: "keyed ?g" using grouped_loop [of items] by simp_all
  show "distinct (map fst (group_by_year_month items))"
    using kd by (simp add: result_keys distinct_sorted_reverse keys_distinct_def)
  show "\<forall>(y, months) \<in> set (group_by_year_month items).
      distinct (map fst months) \<and>
      (\<forall>(m, its) \<in> set months. \<forall>x \<in> set its. year (datetime x) = y \<and> month (datetime x) = m)"
  proof (clarify, intro conjI ballI)
    fix y ms assume yms: "(y, ms) \<in> set (group_by_year_month items)"
    from result_entry [OF yms] have e: "(y, dd_get ?g y) \<in> set ?g"
      and ms: "ms = map (\<lambda>m. (m, sorted_reverse (\<lambda>x. dt_key (datetime x)) (dd_get (dd_get ?g y) m)))
                  (sorted_reverse id (map fst (dd_get ?g y)))" by simp_all
    have "distinct (map fst (dd_get ?g y))"
      using kd e by (auto simp: keys_distinct_def list_all_iff)
    then show "distinct (map fst ms)"
      unfolding ms by (simp add: comp_def distinct_sorted_reverse)
    fix mi assume mi: "mi \<in> set ms"
    obtain m its where mi_eq: "mi = (m, its)" by (cases mi)
    from result_bucket [OF yms] mi mi_eq
    have b: "(m, dd_get (dd_get ?g y) m) \<in> set (dd_get ?g y)"
      and its: "its = sorted_reverse (\<lambda>x. dt_key (datetime x)) (dd_get (dd_get ?g y) m)" by simp_all
    have "\<forall>x \<in> set (dd_get (dd_get ?g y) m). year (datetime x) = y \<and> month (datetime x) = m"
      using keyed e b by (fastforce simp: keyed_def list_all_iff)
    then show "case mi of (m, its) \<Rightarrow> \<forall>x \<in> set its. year (datetime x) = y \<and> month (datetime x) = m"
      using mi_eq its by (simp add: set_sorted_reverse)
  qed
qed

lemma sample_grouped:
  "map (\<lambda>(y, months). (y, map (\<lambda>(m, its). (m, map date_str its)) months)) (group_by_year_month sample_items) =
     [(2024, [(5, [''2023-05-01 10:00:00 UTC''])]),
      (2023, [(7, [''2023-05-01 10:00:00 UTC'']),
              (5, [''2023-05-01 10:00:00 UTC'', ''2023-05-01 10:00:00 UTC'', ''May 01, 2023''])])]"
  by code_simp

theorem grouping_is_partition_witness:
  "mset (buckets (group_by_year_month sample_items)) = mset sample_items \<and>
   distinct (map fst (group_by_year_month sample_items)) \<and>
   map fst (group_by_year_month sample_items) = [2024, 2023]"
proof -
  have "map fst (map (\<lambda>(y, months). (y, map (\<lambda>(m, its). (m, map date_str its)) months))
          (group_by_year_month sample_items)) = [2024, 2023]"
    by (simp only: sample_grouped) simp
  then have "map fst (group_by_year_month sample_items) = [2024, 2023]"
    by (simp add: comp_def case_prod_unfold)
  with grouping_is_partition [of sample_items] show ?thesis by blast
qed

text \<open>
  C5: in the index the years are strictly descending, the months of every year are
  strictly descending, and the items of every month are in non-increasing order of their
  timestamps.
\<close>

theorem grouping_is_ordered:
  "sorted_wrt (\<lambda>a b. a > b) (map fst (group_by_year_month items)) \<and>
   (\<forall>(y, months) \<in> set (group_by_year_month items).
      sorted_wrt (\<lambda>a b. a > b) (map fst months) \<and>
      (\<forall>(m, its) \<in> set months.
         sorted_wrt (\<lambda>a b. dt_key (datetime a) \<ge> dt_key (datetime b)) its))"
proof (intro conjI)
  let ?g = "fold group_insert items []"
  have kd: "keys_distinct ?g" using grouped_loop [of items] by simp
  show "sorted_wrt (\<lambda>a b. a > b) (map fst (group_by_year_month items))"
    using kd by (simp add: result_keys sorted_reverse_strict keys_distinct_def)
  show "\<forall>(y, months) \<in> set (group_by_year_month items).
      sorted_wrt (\<lambda>a b. a > b) (map fst months) \<and>
      (\<forall>(m, its) \<in> set months.
         sorted_wrt (\<lambda>a b. dt_key (datetime a) \<ge> dt_key (datetime b)) its)"
  proof (clarify, intro conjI ballI)
    fix y ms assume yms: "(y, ms) \<in> set (group_by_year_month items)"
    from result_entry [OF yms] have e: "(y, dd_get ?g y) \<in> set ?g"
      and ms: "ms = map (\<lambda>m. (m, sorted_reverse (\<lambda>x. dt_key (datetime x)) (dd_get (dd_get ?g y) m)))
                  (sorted_reverse id (map fst (dd_get ?g y)))" by simp_all
    have "distinct (map fst (dd_get ?g y))"
      using kd e by (auto simp: keys_distinct_def list_all_iff)
    then show "sorted_wrt (\<lambda>a b. a > b) (map fst ms)"
      unfolding ms by (simp add: comp_def sorted_reverse_strict)
    fix mi assume mi: "mi \<in> set ms"
    obtain m its where mi_eq: "mi = (m, its)" by (cases mi)
    from result_bucket [OF yms] mi mi_eq
    have "its = sorted_reverse (\<lambda>x. dt_key (datetime x)) (dd_get (dd_get ?g y) m)" by simp
    then show "case mi of (m, its) \<Rightarrow> sorted_wrt (\<lambda>a b. dt_key (datetime a) \<ge> dt_key (datetime b)) its"
      using mi_eq sorted_reverse_desc [of "\<lambda>x. dt_key (datetime x)"] by simp
  qed
qed


theorem grouping_is_ordered_witness:
  "sorted_wrt (\<lambda>a b. a > b) (map fst (group_by_year_month sample_items)) \<and>
   map fst (group_by_year_month sample_items) = [2024, 2023]"
proof -
  have "map fst (map (\<lambda>(y, months). (y, map (\<lambda>(m, its). (m, map date_str its)) months))
          (group_by_year_month sample_items)) = [2024, 2023]"
    by (simp only: sample_grouped) simp
  then have "map fst (group_by_year_month sample_items) = [2024, 2023]"
    by (simp add: comp_def case_prod_unfold)
  with grouping_is_ordered [of sample_items] show ?thesis by blast
qed

section \<open>The loader\<close>

lemma dict_get_missing: "k \<notin> fst ` set kvs \<Longrightarrow> dict_get kvs k = JNull"
proof -
  assume "k \<notin> fst ` set kvs"
  then have "map_of (rev kvs) k = None" by (simp add: map_of_eq_None_iff)
  then show ?thesis by (simp add: dict_get_def)
qed

lemma no_date_skipped: "lacks_date kvs \<Longrightarrow> normalize_item (JObj kvs) = Inr None"
  by (simp add: lacks_date_def normalize_item_def dict_get_missing py_or_def Let_def)

lemma no_url_skipped: "lacks_url kvs \<Longrightarrow> normalize_item (JObj kvs) = Inr None"
  by (simp add: lacks_url_def url_keys_def normalize_item_def dict_get_missing py_or_def Let_def)

lemma load_items_length:
  "load_items items = Inr out \<Longrightarrow> length (filter excluded items) + length out = length items"
proof (induction items arbitrary: out)
  case Nil
  then show ?case by simp
next
  case (Cons item items)
  from Cons.prems obtain r ms where r: "normalize_item item = Inr r" and ms: "load_items items = Inr ms"
    and out: "out = (case r of None \<Rightarrow> ms | Some m \<Rightarrow> m # ms)"
    by (auto split: sum.splits)
  from Cons.IH [OF ms] have "length (filter excluded items) + length ms = length items" .
  then show ?case using r out unfolding excluded_def by (cases r) simp_all
qed

lemma load_items_total:
  "list_all (\<lambda>i. normalize_item i \<noteq> Inl AttributeError) items \<Longrightarrow> \<exists>out. load_items items = Inr out"
proof (induction items)
  case Nil
  then show ?case by simp
next
  case (Cons item items)
  then obtain ms where ms: "load_items items = Inr ms" by auto
  have "\<And>e. normalize_item item = Inl e \<Longrightarrow> e = AttributeError"
    by (auto simp: normalize_item_def Let_def split: json.splits if_splits option.splits)
  with Cons.prems obtain r where "normalize_item item = Inr r"
    by (cases "normalize_item item") auto
  then show ?case using ms by simp
qed

text \<open>
  C8: a record that has no date key or no URL key, under any accepted spelling, is left
  out without an exception; and when the loader returns, no record raised, and the
  number of records left out is the length of the input minus the length of the output.
  When no record raises, the loader returns.
\<close>

theorem loader_excludes_incomplete:
  "(lacks_date kvs \<or> lacks_url kvs \<longrightarrow> normalize_item (JObj kvs) = Inr None) \<and>
   (load_memories (JObj [(''Saved Media'', JArr items)]) = Inr out
      \<longrightarrow> list_all (\<lambda>i. normalize_item i \<noteq> Inl AttributeError) items \<and>
          length (filter excluded items) = length items - length out) \<and>
   (list_all (\<lambda>i. normalize_item i \<noteq> Inl AttributeError) items
      \<longrightarrow> (\<exists>out. load_memories (JObj [(''Saved Media'', JArr items)]) = Inr out))"
proof (intro conjI impI)
  assume "lacks_date kvs \<or> lacks_url kvs"
  then show "normalize_item (JObj kvs) = Inr None"
    using no_date_skipped no_url_skipped by blast
next
  have lm: "load_memories (JObj [(''Saved Media'', JArr items)]) = load_items items"
    by (simp add: load_memories_def saved_media_def)
  {
    assume a: "load_memories (JObj [(''Saved Media'', JArr items)]) = Inr out"
    then have li: "load_items items = Inr out" using lm by simp
    from load_items_length [OF li]
    show "length (filter excluded items) = length items - length out" by simp
    have "\<And>xs ys. load_items xs = Inr ys \<Longrightarrow> list_all (\<lambda>i. normalize_item i \<noteq> Inl AttributeError) xs"
    proof -
      fix xs ys show "load_items xs = Inr ys \<Longrightarrow> list_all (\<lambda>i. normalize_item i \<noteq> Inl AttributeError) xs"
        by (induction xs arbitrary: ys) (auto split: sum.splits)
    qed
    from this [OF li] show "list_all (\<lambda>i. normalize_item i \<noteq> Inl AttributeError) items" .
  }
  {
    assume "list_all (\<lambda>i. normalize_item i \<noteq> Inl AttributeError) items"
    then show "\<exists>out. load_memories (JObj [(''Saved Media'', JArr items)]) = Inr out"
      using lm load_items_total by simp
  }
qed

lemma sample_load:
  "map date_str (case load_memories (JObj [(''Saved Media'', JArr [image_item, undated_item, video_item])]) of Inr ms \<Rightarrow> ms | Inl e \<Rightarrow> [])
    = [''2023-05-01 10:00:00 UTC'', ''2023-01-15 09:30:00 UTC'']"
  by code_simp


lemma sample_loaded:
  "load_memories (JObj [(''Saved Media'', JArr [image_item, undated_item, video_item])]) =
     Inr [\<lparr>datetime = \<lparr>year = 2023, month = 5, day = 1, hour = 10, minute = 0, second = 0\<rparr>,
           date_str = ''2023-05-01 10:00:00 UTC'', media_type = JStr ''Image'', location = JStr [],
           url = JStr ''https://cdn.example/a''\<rparr>,
          \<lparr>datetime = \<lparr>year = 2023, month = 1, day = 15, hour = 9, minute = 30, second = 0\<rparr>,
           date_str = ''2023-01-15 09:30:00 UTC'', media_type = JStr ''Video'', location = JStr [],
           url = JStr ''https://cdn.example/b''\<rparr>]"
  by code_simp

theorem loader_excludes_incomplete_witness:
  "normalize_item undated_item = Inr None \<and>
   length (filter excluded [image_item, undated_item, video_item]) = 1"
proof -
  have "lacks_date [(''Media Type'', JStr ''Image''), (''Media Download Url'', JStr ''https://cdn.example/c'')]"
    by (simp add: lacks_date_def)
  with loader_excludes_incomplete
    [of "[(''Media Type'', JStr ''Image''), (''Media Download Url'', JStr ''https://cdn.example/c'')]"]
  have 1: "normalize_item undated_item = Inr None"
    unfolding undated_item_def by blast
  from loader_excludes_incomplete [where items = "[image_item, undated_item, video_item]"] sample_loaded
  have "length (filter excluded [image_item, undated_item, video_item]) = length [image_item, undated_item, video_item] - length
     [\<lparr>datetime = \<lparr>year = 2023, month = 5, day = 1, hour = 10, minute = 0, second = 0\<rparr>,
           date_str = ''2023-05-01 10:00:00 UTC'', media_type = JStr ''Image'', location = JStr [],
           url = JStr ''https://cdn.example/a''\<rparr>,
          \<lparr>datetime = \<lparr>year = 2023, month = 1, day = 15, hour = 9, minute = 30, second = 0\<rparr>,
           date_str = ''2023-01-15 09:30:00 UTC'', media_type = JStr ''Video'', location = JStr [],
           url = JStr ''https://cdn.example/b''\<rparr>]"
    by blast
  then have 2: "length (filter excluded [image_item, undated_item, video_item]) = 1"
    by simp
  from 1 2 show ?thesis by blast
qed

section \<open>The exit status\<close>



















section \<open>The date parser\<close>

subsection \<open>Digits and the classes of the directives\<close>

lemma fixed_zero: "fixed w 0 = replicate w (CHR ''0'')"
  by (induction w) (simp_all add: digit_chr_def replicate_append_same)

lemma length_dec_pos: "0 < length (dec n)"
  by (subst dec.simps) simp

lemma zpad_fixed: "0 < w \<Longrightarrow> n < 10 ^ w \<Longrightarrow> zpad w (dec n) = fixed w n"
proof (induction w arbitrary: n)
  case 0
  then show ?case by simp
next
  case (Suc w)
  show ?case
  proof (cases "n < 10")
    case True
    then have "dec n = [digit_chr n]" by (simp add: dec.simps [of n])
    then show ?thesis using True by (simp add: zpad_def fixed_zero)
  next
    case False
    then have w: "0 < w" using Suc.prems by (cases w) auto
    have small: "n div 10 < 10 ^ w" using Suc.prems by (simp add: less_mult_imp_div_less mult.commute)
    have d: "dec n = dec (n div 10) @ [digit_chr (n mod 10)]" using False by (simp add: dec.simps [of n])
    have "zpad (Suc w) (dec n) = zpad w (dec (n div 10)) @ [digit_chr (n mod 10)]"
      by (simp add: zpad_def d)
    then show ?thesis using Suc.IH [OF w small] by simp
  qed
qed

lemma zpad2: "n < 100 \<Longrightarrow> zpad 2 (dec n) = [digit_chr (n div 10), digit_chr (n mod 10)]"
proof -
  assume "n < 100"
  then have "zpad 2 (dec n) = fixed 2 n" by (intro zpad_fixed) simp_all
  moreover have "n div 10 < 10" using \<open>n < 100\<close> by simp
  ultimately show ?thesis by (simp add: numeral_2_eq_2)
qed

lemma zpad4:
  "n < 10000 \<Longrightarrow> zpad 4 (dec n) =
     [digit_chr (n div 1000), digit_chr (n div 100 mod 10), digit_chr (n div 10 mod 10), digit_chr (n mod 10)]"
proof -
  assume n: "n < 10000"
  then have z: "zpad 4 (dec n) = fixed 4 n" by (intro zpad_fixed) simp_all
  have four: "(4::nat) = Suc (Suc (Suc (Suc 0)))" by simp
  have "n div (10 * 10) = n div 10 div 10" by (rule div_mult2_eq)
  then have a: "n div 10 div 10 = n div 100" by simp
  have "n div (100 * 10) = n div 100 div 10" by (rule div_mult2_eq)
  then have b: "n div 100 div 10 = n div 1000" by simp
  have c: "n div 1000 mod 10 = n div 1000" using n by simp
  have "fixed 4 n = [digit_chr (n div 10 div 10 div 10 mod 10), digit_chr (n div 10 div 10 mod 10),
      digit_chr (n div 10 mod 10), digit_chr (n mod 10)]"
    by (simp only: four fixed.simps append.simps)
  then show ?thesis by (simp only: z a b c)
qed


lemma length_dec: "10 ^ k \<le> n \<Longrightarrow> k < length (dec n)"
proof (induction k arbitrary: n)
  case 0
  show ?case using length_dec_pos [of n] by simp
next
  case (Suc k)
  then have big: "10 \<le> n"
    by (metis le_trans one_le_numeral one_le_power power_Suc mult.right_neutral mult_le_mono2)
  have "10 ^ k \<le> n div 10" using Suc.prems by (simp add: less_eq_div_iff_mult_less_eq mult.commute)
  then have "k < length (dec (n div 10))" by (rule Suc.IH)
  moreover have "dec n = dec (n div 10) @ [digit_chr (n mod 10)]"
    using big by (simp add: dec.simps [of n])
  ultimately show ?case by simp
qed

lemma dec4:
  assumes "1000 \<le> n" "n < 10000"
  shows "dec n =
     [digit_chr (n div 1000), digit_chr (n div 100 mod 10), digit_chr (n div 10 mod 10), digit_chr (n mod 10)]"
proof -
  have "(10::nat) ^ 3 \<le> n" using assms(1) by simp
  then have "3 < length (dec n)" by (rule length_dec)
  then have "zpad 4 (dec n) = dec n" by (simp add: zpad_def)
  then show ?thesis using zpad4 [OF assms(2)] by simp
qed

subsection \<open>Digits\<close>

lemma digit_chr_val: "is_digit c \<Longrightarrow> digit_chr (digit_val c) = c"
  by (auto simp: is_digit_def digit_val_def digit_chr_def)

lemma digit_chr_in:
  "a < 10 \<Longrightarrow> digit_chr a \<in> set cls \<longleftrightarrow> a \<in> set (map digit_val (filter is_digit cls))"
proof
  assume a: "a < 10" and "digit_chr a \<in> set cls"
  then have "digit_chr a \<in> set (filter is_digit cls)" by (simp add: digit_chr_is_digit)
  then have "digit_val (digit_chr a) \<in> set (map digit_val (filter is_digit cls))" unfolding set_map by (rule imageI)
  then show "a \<in> set (map digit_val (filter is_digit cls))" using a by (simp only: digit_val_chr)
next
  assume a: "a < 10" and "a \<in> set (map digit_val (filter is_digit cls))"
  then obtain c where c: "c \<in> set cls" "is_digit c" "a = digit_val c" by auto
  then have "digit_chr a = c" by (simp add: digit_chr_val)
  with c show "digit_chr a \<in> set cls" by simp
qed

lemma digit_not_space: "a < 10 \<Longrightarrow> \<not> is_space (digit_chr a)"
  using digit_cases [of a] by (auto simp: is_space_def digit_chr_def)

lemma digit_neq: "a < 10 \<Longrightarrow> digit_chr a \<noteq> CHR '' ''" "a < 10 \<Longrightarrow> digit_chr a \<noteq> CHR ''U''"
  using digit_cases [of a] by (auto simp: digit_chr_def)

lemma two_of_chr:
  "a < 10 \<Longrightarrow> b < 10 \<Longrightarrow>
   two_of c1 c2 (digit_chr a # digit_chr b # rest) =
     (if in_class (digit_chr a) c1 \<and> in_class (digit_chr b) c2 then [(10 * a + b, rest)] else [])"
  by (simp add: digit_val_chr)

lemma one_of_chr:
  "a < 10 \<Longrightarrow>
   one_of cls (digit_chr a # rest) = (if in_class (digit_chr a) cls then [(a, rest)] else [])"
  by (simp add: digit_val_chr)

lemma class_in:
  assumes "a < 10"
  shows "in_class (digit_chr a) ''0123456789''"
    and "in_class (digit_chr a) ''123456789'' \<longleftrightarrow> 1 \<le> a"
    and "in_class (digit_chr a) ''012345'' \<longleftrightarrow> a \<le> 5"
    and "in_class (digit_chr a) ''0123'' \<longleftrightarrow> a \<le> 3"
    and "in_class (digit_chr a) ''012'' \<longleftrightarrow> a \<le> 2"
    and "in_class (digit_chr a) ''01'' \<longleftrightarrow> a \<le> 1"
    and "in_class (digit_chr a) ''12'' \<longleftrightarrow> 1 \<le> a \<and> a \<le> 2"
    and "in_class (digit_chr a) ''0'' \<longleftrightarrow> a = 0"
    and "in_class (digit_chr a) ''1'' \<longleftrightarrow> a = 1"
    and "in_class (digit_chr a) ''2'' \<longleftrightarrow> a = 2"
    and "in_class (digit_chr a) ''3'' \<longleftrightarrow> a = 3"
    and "in_class (digit_chr a) ''6'' \<longleftrightarrow> a = 6"
  using digit_cases [OF assms] by (auto simp: digit_chr_def in_class_def)

lemma first_is_Cons [simp]: "first_is (x # xs) y \<longleftrightarrow> x = y"
  by (simp add: first_is_def)

lemma first_is_Nil [simp]: "\<not> first_is [] y"
  by (simp add: first_is_def)

lemma first_is_append: "first_is xs x \<Longrightarrow> first_is (xs @ ys) x"
  by (cases xs) simp_all

lemma first_is_bind:
  "first_is ps p \<Longrightarrow> first_is (f p) r \<Longrightarrow> first_is (concat (map f ps)) r"
  by (cases ps) (simp_all add: first_is_append)

lemmas re_digit_simps = two_of_chr one_of_chr class_in

lemma re_m_two:
  assumes "a < 10" "b < 10" "1 \<le> 10 * a + b" "10 * a + b \<le> 12"
  shows "first_is (re_m (digit_chr a # digit_chr b # rest)) (10 * a + b, rest)"
proof -
  consider "a = 0" | "a = 1" using assms by linarith
  then show ?thesis
    using assms by cases (simp_all add: re_m_def re_digit_simps del: two_of.simps one_of.simps)
qed

lemma re_d_two:
  assumes "a < 10" "b < 10" "1 \<le> 10 * a + b" "10 * a + b \<le> 31"
  shows "first_is (re_d (digit_chr a # digit_chr b # rest)) (10 * a + b, rest)"
proof -
  consider "a = 0" | "a = 1" | "a = 2" | "a = 3" using assms by linarith
  then show ?thesis
    using assms by cases (simp_all add: re_d_def re_digit_simps del: two_of.simps one_of.simps)
qed

lemma re_H_two:
  assumes "a < 10" "b < 10" "10 * a + b \<le> 23"
  shows "first_is (re_H (digit_chr a # digit_chr b # rest)) (10 * a + b, rest)"
proof -
  consider "a = 0" | "a = 1" | "a = 2" using assms by linarith
  then show ?thesis
    using assms by cases (simp_all add: re_H_def re_digit_simps del: two_of.simps one_of.simps)
qed

lemma re_M_two:
  assumes "a < 10" "b < 10" "10 * a + b \<le> 59"
  shows "first_is (re_M (digit_chr a # digit_chr b # rest)) (10 * a + b, rest)"
proof -
  have "a \<le> 5" using assms by linarith
  then show ?thesis
    using assms by (simp add: re_M_def re_digit_simps del: two_of.simps one_of.simps)
qed

lemma re_S_two:
  assumes "a < 10" "b < 10" "10 * a + b \<le> 59"
  shows "first_is (re_S (digit_chr a # digit_chr b # rest)) (10 * a + b, rest)"
proof -
  have "a \<le> 5" using assms by linarith
  then show ?thesis
    using assms by (simp add: re_S_def re_digit_simps del: two_of.simps one_of.simps)
qed

subsection \<open>Matching the ISO formats\<close>

subsection \<open>Matching, step by step\<close>

lemma match_dir:
  assumes "first_is (re_directive d s) (v, rest)"
      and "first_is (match_toks ts (found @ [(d, v)]) rest) r"
  shows "first_is (match_toks (Directive d # ts) found s) r"
proof -
  have "first_is (concat (map (\<lambda>(v, rest). match_toks ts (found @ [(d, v)]) rest) (re_directive d s))) r"
    by (rule first_is_bind [OF assms(1)]) (use assms(2) in simp)
  then show ?thesis by simp
qed

lemma match_lit:
  assumes "lower_char a = lower_char c" and "first_is (match_toks ts found rest) r"
  shows "first_is (match_toks (Literal c # ts) found (a # rest)) r"
  using assms by simp

lemma match_ws:
  assumes "first_is (re_spaces s) rest" and "first_is (match_toks ts found rest) r"
  shows "first_is (match_toks (Whitespace # ts) found s) r"
proof -
  have "first_is (concat (map (\<lambda>rest. match_toks ts found rest) (re_spaces s))) r"
    by (rule first_is_bind [OF assms(1)]) (use assms(2) in simp)
  then show ?thesis by simp
qed

lemma match_end: "first_is (match_toks [] found s) (found, s)"
  by simp

lemma re_Y_four:
  "a < 10 \<Longrightarrow> b < 10 \<Longrightarrow> c < 10 \<Longrightarrow> d < 10 \<Longrightarrow>
   re_Y (digit_chr a # digit_chr b # digit_chr c # digit_chr d # rest) =
     [(1000 * a + 100 * b + 10 * c + d, rest)]"
  by (simp add: digit_chr_is_digit digit_val_chr)

lemma one_space: "a < 10 \<Longrightarrow> re_spaces (CHR '' '' # digit_chr a # rest) = [digit_chr a # rest]"
  using digit_cases [of a] by (auto simp: re_spaces_def is_space_def digit_chr_def)

lemma re_directive_simps:
  "re_directive (CHR ''Y'') s = re_Y s" "re_directive (CHR ''m'') s = re_m s"
  "re_directive (CHR ''d'') s = re_d s" "re_directive (CHR ''H'') s = re_H s"
  "re_directive (CHR ''M'') s = re_M s" "re_directive (CHR ''S'') s = re_S s"
  "re_directive (CHR ''B'') s = re_B s"
  by (simp_all add: re_directive_def)

lemma tokens_iso:
  "fmt_tokens (replace '' %Z'' [] ''%Y-%m-%d %H:%M:%S %Z'') =
     [Directive (CHR ''Y''), Literal (CHR ''-''), Directive (CHR ''m''), Literal (CHR ''-''),
      Directive (CHR ''d''), Whitespace, Directive (CHR ''H''), Literal (CHR '':''),
      Directive (CHR ''M''), Literal (CHR '':''), Directive (CHR ''S'')]"
  "fmt_tokens (replace '' %Z'' [] ''%Y-%m-%d %H:%M:%S'') =
     [Directive (CHR ''Y''), Literal (CHR ''-''), Directive (CHR ''m''), Literal (CHR ''-''),
      Directive (CHR ''d''), Whitespace, Directive (CHR ''H''), Literal (CHR '':''),
      Directive (CHR ''M''), Literal (CHR '':''), Directive (CHR ''S'')]"
  "fmt_tokens (replace '' %Z'' [] ''%B %d, %Y'') =
     [Directive (CHR ''B''), Whitespace, Directive (CHR ''d''), Literal (CHR '',''), Whitespace,
      Directive (CHR ''Y'')]"
  by code_simp+

text \<open>The text of a date and time, from the digits.\<close>

lemma match_iso:
  assumes y: "y1 < 10" "y2 < 10" "y3 < 10" "y4 < 10"
      and m: "m1 < 10" "m2 < 10" "1 \<le> 10 * m1 + m2" "10 * m1 + m2 \<le> 12"
      and d: "d1 < 10" "d2 < 10" "1 \<le> 10 * d1 + d2" "10 * d1 + d2 \<le> 31"
      and h: "h1 < 10" "h2 < 10" "10 * h1 + h2 \<le> 23"
      and mi: "i1 < 10" "i2 < 10" "10 * i1 + i2 \<le> 59"
      and s: "s1 < 10" "s2 < 10" "10 * s1 + s2 \<le> 59"
  shows "first_is
           (match_toks
              [Directive (CHR ''Y''), Literal (CHR ''-''), Directive (CHR ''m''), Literal (CHR ''-''),
               Directive (CHR ''d''), Whitespace, Directive (CHR ''H''), Literal (CHR '':''),
               Directive (CHR ''M''), Literal (CHR '':''), Directive (CHR ''S'')] []
              (digit_chr y1 # digit_chr y2 # digit_chr y3 # digit_chr y4 # CHR ''-'' #
               digit_chr m1 # digit_chr m2 # CHR ''-'' # digit_chr d1 # digit_chr d2 # CHR '' '' #
               digit_chr h1 # digit_chr h2 # CHR '':'' # digit_chr i1 # digit_chr i2 # CHR '':'' #
               [digit_chr s1, digit_chr s2]))
           ([(CHR ''Y'', 1000 * y1 + 100 * y2 + 10 * y3 + y4), (CHR ''m'', 10 * m1 + m2),
             (CHR ''d'', 10 * d1 + d2), (CHR ''H'', 10 * h1 + h2), (CHR ''M'', 10 * i1 + i2),
             (CHR ''S'', 10 * s1 + s2)], [])"
  apply (rule match_dir [where v = "1000 * y1 + 100 * y2 + 10 * y3 + y4"])
   apply (simp only: re_directive_simps re_Y_four [OF y] first_is_Cons)
  apply (rule match_lit, simp)
  apply (rule match_dir [where v = "10 * m1 + m2"])
   apply (simp only: re_directive_simps, rule re_m_two [OF m])
  apply (rule match_lit, simp)
  apply (rule match_dir [where v = "10 * d1 + d2"])
   apply (simp only: re_directive_simps, rule re_d_two [OF d])
  apply (rule match_ws [where rest = "digit_chr h1 # digit_chr h2 # CHR '':'' # digit_chr i1 # digit_chr i2 # CHR '':'' # [digit_chr s1, digit_chr s2]"])
   apply (simp only: one_space [OF h(1)] first_is_Cons)
  apply (rule match_dir [where v = "10 * h1 + h2"])
   apply (simp only: re_directive_simps, rule re_H_two [OF h])
  apply (rule match_lit, simp)
  apply (rule match_dir [where v = "10 * i1 + i2"])
   apply (simp only: re_directive_simps, rule re_M_two [OF mi])
  apply (rule match_lit, simp)
  apply (rule match_dir [where v = "10 * s1 + s2"])
   apply (simp only: re_directive_simps, rule re_S_two [OF s])
  apply (simp only: append.simps match_end)
  done

subsection \<open>What strftime prints\<close>

lemma strptime_first:
  assumes "first_is (match_toks (fmt_tokens fmt) [] s) (found, [])"
  shows "strptime s fmt = make_datetime (fold apply_group found (1900, 1, 1, 0, 0, 0))"
  using assms by (cases "match_toks (fmt_tokens fmt) [] s") (simp_all add: strptime_def)

lemma days_in_month_le: "days_in_month y m \<le> 31"
  by (simp add: days_in_month_def)

lemma four_parts:
  "n = 10 * e + d \<Longrightarrow> e = 10 * f + c \<Longrightarrow> f = 10 * a + b \<Longrightarrow> 1000 * a + 100 * b + 10 * c + d = (n::nat)"
  by simp

lemma four_digits: "1000 * (n div 1000) + 100 * (n div 100 mod 10) + 10 * (n div 10 mod 10) + n mod 10 = (n::nat)"
proof -
  have "n div (10 * 10) = n div 10 div 10" by (rule div_mult2_eq)
  then have a: "n div 10 div 10 = n div 100" by simp
  have "n div (100 * 10) = n div 100 div 10" by (rule div_mult2_eq)
  then have b: "n div 100 div 10 = n div 1000" by simp
  have 1: "n = 10 * (n div 10) + n mod 10" by simp
  have "n div 10 = 10 * (n div 10 div 10) + n div 10 mod 10" by simp
  then have 2: "n div 10 = 10 * (n div 100) + n div 10 mod 10" by (simp only: a)
  have "n div 100 = 10 * (n div 100 div 10) + n div 100 mod 10" by simp
  then have 3: "n div 100 = 10 * (n div 1000) + n div 100 mod 10" by (simp only: b)
  from 1 2 3 show ?thesis by (rule four_parts)
qed

lemma iso_digits:
  assumes "valid_datetime dt" and "1000 \<le> year dt"
  shows "strftime_tz tz dt ''%Y-%m-%d %H:%M:%S'' =
     digit_chr (year dt div 1000) # digit_chr (year dt div 100 mod 10) #
     digit_chr (year dt div 10 mod 10) # digit_chr (year dt mod 10) # CHR ''-'' #
     digit_chr (month dt div 10) # digit_chr (month dt mod 10) # CHR ''-'' #
     digit_chr (day dt div 10) # digit_chr (day dt mod 10) # CHR '' '' #
     digit_chr (hour dt div 10) # digit_chr (hour dt mod 10) # CHR '':'' #
     digit_chr (minute dt div 10) # digit_chr (minute dt mod 10) # CHR '':'' #
     [digit_chr (second dt div 10), digit_chr (second dt mod 10)]"
proof -
  have b: "year dt < 10000" "month dt < 100" "day dt < 100" "hour dt < 100" "minute dt < 100" "second dt < 100"
    using assms days_in_month_le [of "year dt" "month dt"] by (auto simp: valid_datetime_def)
  show ?thesis
    by (simp add: fmt_directive_def dec4 [OF assms(2) b(1)] zpad2 [OF b(2)] zpad2 [OF b(3)]
        zpad2 [OF b(4)] zpad2 [OF b(5)] zpad2 [OF b(6)])
qed

lemma iso_zone:
  "strftime_tz tz dt ''%Y-%m-%d %H:%M:%S %Z'' = strftime_tz tz dt ''%Y-%m-%d %H:%M:%S'' @ CHR '' '' # tz"
  by (simp add: fmt_directive_def)

lemma replace_iso:
  assumes "y1 < 10" "y2 < 10" "y3 < 10" "y4 < 10" "m1 < 10" "m2 < 10" "d1 < 10" "d2 < 10"
      "h1 < 10" "h2 < 10" "i1 < 10" "i2 < 10" "s1 < 10" "s2 < 10"
  shows "replace '' UTC'' []
           (digit_chr y1 # digit_chr y2 # digit_chr y3 # digit_chr y4 # CHR ''-'' #
            digit_chr m1 # digit_chr m2 # CHR ''-'' # digit_chr d1 # digit_chr d2 # CHR '' '' #
            digit_chr h1 # digit_chr h2 # CHR '':'' # digit_chr i1 # digit_chr i2 # CHR '':'' #
            [digit_chr s1, digit_chr s2] @ tail) =
         digit_chr y1 # digit_chr y2 # digit_chr y3 # digit_chr y4 # CHR ''-'' #
            digit_chr m1 # digit_chr m2 # CHR ''-'' # digit_chr d1 # digit_chr d2 # CHR '' '' #
            digit_chr h1 # digit_chr h2 # CHR '':'' # digit_chr i1 # digit_chr i2 # CHR '':'' #
            [digit_chr s1, digit_chr s2] @ replace '' UTC'' [] tail"
  using assms by (simp add: digit_neq)

lemma replace_utc_tail: "replace '' UTC'' [] '' UTC'' = []" "replace '' UTC'' [] [] = []"
  by simp_all

subsection \<open>The ISO formats read back\<close>

lemma strptime_iso:
  assumes v: "valid_datetime dt" and y4: "1000 \<le> year dt"
  shows "strptime (strftime_tz tz dt ''%Y-%m-%d %H:%M:%S'') (replace '' %Z'' [] ''%Y-%m-%d %H:%M:%S'') = Inr dt"
proof -
  have le: "day dt \<le> 31" using v days_in_month_le [of "year dt" "month dt"] by (simp add: valid_datetime_def)
  have b: "year dt < 10000" "1 \<le> month dt" "month dt \<le> 12" "1 \<le> day dt"
    "hour dt \<le> 23" "minute dt \<le> 59" "second dt \<le> 59"
    using v by (simp_all add: valid_datetime_def)
  have y: "year dt div 1000 < 10" "year dt div 100 mod 10 < 10" "year dt div 10 mod 10 < 10" "year dt mod 10 < 10"
    using b(1) by simp_all
  have m: "month dt div 10 < 10" "month dt mod 10 < 10" "1 \<le> 10 * (month dt div 10) + month dt mod 10"
    "10 * (month dt div 10) + month dt mod 10 \<le> 12" using b by simp_all
  have d: "day dt div 10 < 10" "day dt mod 10 < 10" "1 \<le> 10 * (day dt div 10) + day dt mod 10"
    "10 * (day dt div 10) + day dt mod 10 \<le> 31" using b le by simp_all
  have h: "hour dt div 10 < 10" "hour dt mod 10 < 10" "10 * (hour dt div 10) + hour dt mod 10 \<le> 23"
    using b by simp_all
  have mi: "minute dt div 10 < 10" "minute dt mod 10 < 10" "10 * (minute dt div 10) + minute dt mod 10 \<le> 59"
    using b by simp_all
  have s: "second dt div 10 < 10" "second dt mod 10 < 10" "10 * (second dt div 10) + second dt mod 10 \<le> 59"
    using b by simp_all
  note first = match_iso [OF y m d h mi s]
  have "strptime (strftime_tz tz dt ''%Y-%m-%d %H:%M:%S'') (replace '' %Z'' [] ''%Y-%m-%d %H:%M:%S'')
        = make_datetime (fold apply_group
            [(CHR ''Y'', 1000 * (year dt div 1000) + 100 * (year dt div 100 mod 10) + 10 * (year dt div 10 mod 10) + year dt mod 10),
             (CHR ''m'', 10 * (month dt div 10) + month dt mod 10),
             (CHR ''d'', 10 * (day dt div 10) + day dt mod 10),
             (CHR ''H'', 10 * (hour dt div 10) + hour dt mod 10),
             (CHR ''M'', 10 * (minute dt div 10) + minute dt mod 10),
             (CHR ''S'', 10 * (second dt div 10) + second dt mod 10)] (1900, 1, 1, 0, 0, 0))"
    by (rule strptime_first) (simp only: tokens_iso iso_digits [OF v y4] first)
  also have "\<dots> = make_datetime (year dt, month dt, day dt, hour dt, minute dt, second dt)"
    by (simp add: four_digits)
  also have "\<dots> = Inr dt"
  proof -
    have "\<lparr>year = year dt, month = month dt, day = day dt,
           hour = hour dt, minute = minute dt, second = second dt\<rparr> = dt"
      by (cases dt) simp
    then show ?thesis using v by (simp add: make_datetime_def Let_def valid_datetime_def)
  qed
  finally show ?thesis .
qed

lemma strptime_iso_z:
  "valid_datetime dt \<Longrightarrow> 1000 \<le> year dt \<Longrightarrow>
   strptime (strftime_tz tz dt ''%Y-%m-%d %H:%M:%S'') (replace '' %Z'' [] ''%Y-%m-%d %H:%M:%S %Z'') = Inr dt"
  using strptime_iso [of dt tz] by (simp only: tokens_iso strptime_def)

lemma replace_text:
  assumes v: "valid_datetime dt" and y4: "1000 \<le> year dt"
  shows "replace '' UTC'' [] (strftime_tz tz dt ''%Y-%m-%d %H:%M:%S'' @ tail) =
         strftime_tz tz dt ''%Y-%m-%d %H:%M:%S'' @ replace '' UTC'' [] tail"
proof -
  have le: "day dt \<le> 31" using v days_in_month_le [of "year dt" "month dt"] by (simp add: valid_datetime_def)
  have b: "year dt < 10000" "month dt \<le> 12" "hour dt \<le> 23" "minute dt \<le> 59" "second dt \<le> 59"
    using v by (simp_all add: valid_datetime_def)
  have "year dt div 1000 < 10" "year dt div 100 mod 10 < 10" "year dt div 10 mod 10 < 10" "year dt mod 10 < 10"
    "month dt div 10 < 10" "month dt mod 10 < 10" "day dt div 10 < 10" "day dt mod 10 < 10"
    "hour dt div 10 < 10" "hour dt mod 10 < 10" "minute dt div 10 < 10" "minute dt mod 10 < 10"
    "second dt div 10 < 10" "second dt mod 10 < 10"
    using b le by simp_all
  from replace_iso [OF this, of tail] show ?thesis
    by (simp only: iso_digits [OF v y4] append.simps)
qed

lemma round_trip_utc:
  assumes v: "valid_datetime dt" and y4: "1000 \<le> year dt"
  shows "parse_date (strftime_tz ''UTC'' dt ''%Y-%m-%d %H:%M:%S %Z'') date_formats = Some dt"
proof -
  have "replace '' UTC'' [] (strftime_tz ''UTC'' dt ''%Y-%m-%d %H:%M:%S %Z'')
        = strftime_tz ''UTC'' dt ''%Y-%m-%d %H:%M:%S''"
    by (simp only: iso_zone replace_text [OF v y4] replace_utc_tail append_Nil2)
  then show ?thesis
    using strptime_iso_z [OF v y4, of "''UTC''"] by (simp add: date_formats_def)
qed

lemma round_trip_plain:
  assumes v: "valid_datetime dt" and y4: "1000 \<le> year dt"
  shows "parse_date (strftime dt ''%Y-%m-%d %H:%M:%S'') date_formats = Some dt"
proof -
  have "replace '' UTC'' [] (strftime_tz [] dt ''%Y-%m-%d %H:%M:%S'' @ [])
        = strftime_tz [] dt ''%Y-%m-%d %H:%M:%S'' @ replace '' UTC'' [] []"
    by (rule replace_text [OF v y4])
  then have "replace '' UTC'' [] (strftime_tz [] dt ''%Y-%m-%d %H:%M:%S'')
        = strftime_tz [] dt ''%Y-%m-%d %H:%M:%S''"
    by (simp only: replace_utc_tail append_Nil2)
  then show ?thesis
    using strptime_iso_z [OF v y4, of "[]"] by (simp add: date_formats_def strftime_def)
qed

subsection \<open>Month names\<close>

lemma month_cases:
  "1 \<le> m \<Longrightarrow> m \<le> 12 \<Longrightarrow>
   m = 1 \<or> m = 2 \<or> m = 3 \<or> m = 4 \<or> m = 5 \<or> m = 6 \<or> m = 7 \<or> m = 8 \<or> m = 9 \<or> m = 10 \<or>
   m = 11 \<or> m = (12::nat)"
  by arith

lemma month_name_no_space:
  assumes "1 \<le> m" "m \<le> 12"
  shows "CHR '' '' \<notin> set (month_name ! m)"
  using month_cases [OF assms] by (elim disjE) (simp_all add: month_name_def)

lemma month_name_letter:
  assumes "1 \<le> m" "m \<le> 12"
  shows "\<exists>c t. month_name ! m = c # t \<and> \<not> is_digit c"
  using month_cases [OF assms] by (elim disjE) (simp_all add: month_name_def is_digit_def)

lemma re_B_month:
  assumes "1 \<le> m" "m \<le> 12"
  shows "first_is (re_B (month_name ! m @ CHR '' '' # rest)) (m, CHR '' '' # rest)"
  using month_cases [OF assms]
  by (elim disjE)
     (simp_all add: re_B_def month_name_def months_longest_first_def lower_def lower_char_def Let_def)

lemma re_Y_letter: "\<not> is_digit c \<Longrightarrow> re_Y (c # t) = []"
  apply (cases t, simp)
  apply (rename_tac b t2, case_tac t2, simp)
  apply (rename_tac c2 t3, case_tac t3, simp)
  apply simp
  done

lemma replace_no_space:
  "CHR '' '' \<notin> set a \<Longrightarrow> replace '' UTC'' [] (a @ tail) = a @ replace '' UTC'' [] tail"
  by (induction a) auto

lemma long_digits:
  assumes v: "valid_datetime dt" and y4: "1000 \<le> year dt"
  shows "strftime dt ''%B %d, %Y'' =
     month_name ! month dt @ CHR '' '' # digit_chr (day dt div 10) # digit_chr (day dt mod 10) #
     CHR '','' # CHR '' '' #
     [digit_chr (year dt div 1000), digit_chr (year dt div 100 mod 10),
      digit_chr (year dt div 10 mod 10), digit_chr (year dt mod 10)]"
proof -
  have b: "year dt < 10000" "day dt < 100"
    using assms days_in_month_le [of "year dt" "month dt"] by (auto simp: valid_datetime_def)
  show ?thesis
    by (simp add: strftime_def fmt_directive_def dec4 [OF y4 b(1)] zpad2 [OF b(2)])
qed

subsection \<open>The long format read back\<close>

lemma match_long:
  assumes m: "1 \<le> mo" "mo \<le> 12"
      and d: "d1 < 10" "d2 < 10" "1 \<le> 10 * d1 + d2" "10 * d1 + d2 \<le> 31"
      and y: "y1 < 10" "y2 < 10" "y3 < 10" "y4 < 10"
  shows "first_is
           (match_toks
              [Directive (CHR ''B''), Whitespace, Directive (CHR ''d''), Literal (CHR '',''), Whitespace,
               Directive (CHR ''Y'')] []
              (month_name ! mo @ CHR '' '' # digit_chr d1 # digit_chr d2 # CHR '','' # CHR '' '' #
               [digit_chr y1, digit_chr y2, digit_chr y3, digit_chr y4]))
           ([(CHR ''B'', mo), (CHR ''d'', 10 * d1 + d2),
             (CHR ''Y'', 1000 * y1 + 100 * y2 + 10 * y3 + y4)], [])"
  apply (rule match_dir [where v = mo])
   apply (simp only: re_directive_simps, rule re_B_month [OF m])
  apply (rule match_ws [where rest = "digit_chr d1 # digit_chr d2 # CHR '','' # CHR '' '' #
               [digit_chr y1, digit_chr y2, digit_chr y3, digit_chr y4]"])
   apply (simp only: one_space [OF d(1)] first_is_Cons)
  apply (rule match_dir [where v = "10 * d1 + d2"])
   apply (simp only: re_directive_simps, rule re_d_two [OF d])
  apply (rule match_lit, simp)
  apply (rule match_ws [where rest = "[digit_chr y1, digit_chr y2, digit_chr y3, digit_chr y4]"])
   apply (simp only: one_space [OF y(1)] first_is_Cons)
  apply (rule match_dir [where v = "1000 * y1 + 100 * y2 + 10 * y3 + y4"])
   apply (simp only: re_directive_simps re_Y_four [OF y] first_is_Cons)
  apply (simp only: append.simps match_end)
  done

lemma strptime_letter_fails:
  assumes "\<not> is_digit c"
  shows "strptime (c # t) (replace '' %Z'' [] ''%Y-%m-%d %H:%M:%S %Z'') = Inl ValueError"
    and "strptime (c # t) (replace '' %Z'' [] ''%Y-%m-%d %H:%M:%S'') = Inl ValueError"
  using re_Y_letter [OF assms, of t]
  by (simp_all only: tokens_iso strptime_def match_toks.simps re_directive_simps list.map concat.simps
      list.case)

lemma replace_long:
  assumes m: "1 \<le> mo" "mo \<le> 12"
      and d: "d1 < 10" "d2 < 10" and y: "y1 < 10" "y2 < 10" "y3 < 10" "y4 < 10"
  shows "replace '' UTC'' []
           (month_name ! mo @ CHR '' '' # digit_chr d1 # digit_chr d2 # CHR '','' # CHR '' '' #
            [digit_chr y1, digit_chr y2, digit_chr y3, digit_chr y4]) =
         month_name ! mo @ CHR '' '' # digit_chr d1 # digit_chr d2 # CHR '','' # CHR '' '' #
            [digit_chr y1, digit_chr y2, digit_chr y3, digit_chr y4]"
proof -
  have "replace '' UTC'' []
          (CHR '' '' # digit_chr d1 # digit_chr d2 # CHR '','' # CHR '' '' #
            [digit_chr y1, digit_chr y2, digit_chr y3, digit_chr y4]) =
        CHR '' '' # digit_chr d1 # digit_chr d2 # CHR '','' # CHR '' '' #
            [digit_chr y1, digit_chr y2, digit_chr y3, digit_chr y4]"
    using d y by (simp add: digit_neq)
  then show ?thesis
    using replace_no_space [OF month_name_no_space [OF m]] by simp
qed

lemma round_trip_long:
  assumes v: "valid_datetime dt" and y4: "1000 \<le> year dt"
  shows "parse_date (strftime dt ''%B %d, %Y'') date_formats = Some (dt\<lparr>hour := 0, minute := 0, second := 0\<rparr>)"
proof -
  have le: "day dt \<le> 31" using v days_in_month_le [of "year dt" "month dt"] by (simp add: valid_datetime_def)
  have b: "year dt < 10000" "1 \<le> month dt" "month dt \<le> 12" "1 \<le> day dt"
    using v by (simp_all add: valid_datetime_def)
  have y: "year dt div 1000 < 10" "year dt div 100 mod 10 < 10" "year dt div 10 mod 10 < 10" "year dt mod 10 < 10"
    using b(1) by simp_all
  have d: "day dt div 10 < 10" "day dt mod 10 < 10" "1 \<le> 10 * (day dt div 10) + day dt mod 10"
    "10 * (day dt div 10) + day dt mod 10 \<le> 31" using b le by simp_all
  define str0 where "str0 = strftime dt ''%B %d, %Y''"
  have str0: "str0 = month_name ! month dt @ CHR '' '' # digit_chr (day dt div 10) # digit_chr (day dt mod 10) #
     CHR '','' # CHR '' '' #
     [digit_chr (year dt div 1000), digit_chr (year dt div 100 mod 10),
      digit_chr (year dt div 10 mod 10), digit_chr (year dt mod 10)]"
    unfolding str0_def by (rule long_digits [OF v y4])
  have same: "replace '' UTC'' [] str0 = str0"
    unfolding str0 by (rule replace_long [OF b(2,3) d(1,2) y])
  obtain c t where ct: "month_name ! month dt = c # t" "\<not> is_digit c"
    using month_name_letter [OF b(2,3)] by blast
  then have "\<exists>t'. str0 = c # t'" unfolding str0 by simp
  then obtain t' where "str0 = c # t'" by blast
  then have fails: "strptime str0 (replace '' %Z'' [] ''%Y-%m-%d %H:%M:%S %Z'') = Inl ValueError"
      "strptime str0 (replace '' %Z'' [] ''%Y-%m-%d %H:%M:%S'') = Inl ValueError"
    using strptime_letter_fails [OF ct(2)] by simp_all
  have "strptime str0 (replace '' %Z'' [] ''%B %d, %Y'')
        = make_datetime (fold apply_group
            [(CHR ''B'', month dt), (CHR ''d'', 10 * (day dt div 10) + day dt mod 10),
             (CHR ''Y'', 1000 * (year dt div 1000) + 100 * (year dt div 100 mod 10) + 10 * (year dt div 10 mod 10) + year dt mod 10)]
            (1900, 1, 1, 0, 0, 0))"
    by (rule strptime_first) (simp only: tokens_iso str0 match_long [OF b(2,3) d y])
  also have "\<dots> = make_datetime (year dt, month dt, day dt, 0, 0, 0)"
    by (simp add: four_digits)
  also have "\<dots> = Inr (dt\<lparr>hour := 0, minute := 0, second := 0\<rparr>)"
    using v by (cases dt) (simp add: make_datetime_def Let_def valid_datetime_def)
  finally have ok: "strptime str0 (replace '' %Z'' [] ''%B %d, %Y'') = Inr (dt\<lparr>hour := 0, minute := 0, second := 0\<rparr>)" .
  show ?thesis
    unfolding str0_def [symmetric]
    using fails ok by (simp add: date_formats_def same)
qed

lemma parsed_is_loaded:
  assumes "parse_date s date_formats = Some d" and "u \<noteq> []"
  shows "normalize_item (JObj [(''Date'', JStr s), (''Media Download Url'', JStr u)]) =
           Inr (Some \<lparr>datetime = d, date_str = s, media_type = JStr [], location = JStr [], url = JStr u\<rparr>)"
proof -
  have "parse_date [] date_formats = None" by code_simp
  then have "s \<noteq> []" using assms(1) by auto
  then show ?thesis
    using assms by (simp add: normalize_item_def dict_get_def py_or_def Let_def)
qed

subsection \<open>The round trip\<close>

text \<open>
  C2, counterexample: the first format prints the zone name of the value. With the zone
  name GMT the text ends in \<open>GMT\<close>, and with no zone (a naive datetime) it ends in a
  space; only the suffix \<open>UTC\<close> is removed before parsing, so in both cases none of the
  three formats matches and the item is skipped. And a year below 1000 is printed with
  fewer than four digits, which the year pattern of the parser does not accept.
\<close>

theorem date_round_trip_counterexample:
  "valid_datetime (datetime sample_memory) \<and>
   strftime_tz ''GMT'' (datetime sample_memory) ''%Y-%m-%d %H:%M:%S %Z'' = ''2023-05-01 10:00:00 GMT'' \<and>
   parse_date ''2023-05-01 10:00:00 GMT'' date_formats = None \<and>
   strftime (datetime sample_memory) ''%Y-%m-%d %H:%M:%S %Z'' = ''2023-05-01 10:00:00 '' \<and>
   parse_date ''2023-05-01 10:00:00 '' date_formats = None \<and>
   valid_datetime ((datetime sample_memory)\<lparr>year := 999\<rparr>) \<and>
   strftime ((datetime sample_memory)\<lparr>year := 999\<rparr>) ''%Y-%m-%d %H:%M:%S'' = ''999-05-01 10:00:00'' \<and>
   parse_date ''999-05-01 10:00:00'' date_formats = None"
  by code_simp

text \<open>
  C2, amended: for every valid datetime with a four-digit year (1000 to 9999), the text
  printed by \<open>%Y-%m-%d %H:%M:%S %Z\<close> with the zone name UTC and the text printed by
  \<open>%Y-%m-%d %H:%M:%S\<close> are accepted by the date parser of the loader and parse back to
  the same date and time; the text printed by \<open>%B %d, %Y\<close> is accepted and parses to the
  same date at 00:00:00, the only time such a text can stand for. A text that the parser
  accepts is not skipped: with a download link the item is loaded with the parsed
  datetime.
\<close>

theorem date_round_trip:
  assumes "valid_datetime dt" and "1000 \<le> year dt"
  shows "parse_date (strftime_tz ''UTC'' dt ''%Y-%m-%d %H:%M:%S %Z'') date_formats = Some dt \<and>
         parse_date (strftime dt ''%Y-%m-%d %H:%M:%S'') date_formats = Some dt \<and>
         parse_date (strftime dt ''%B %d, %Y'') date_formats =
           Some (dt\<lparr>hour := 0, minute := 0, second := 0\<rparr>) \<and>
         (\<forall>s d u. parse_date s date_formats = Some d \<and> u \<noteq> [] \<longrightarrow>
            normalize_item (JObj [(''Date'', JStr s), (''Media Download Url'', JStr u)]) =
              Inr (Some \<lparr>datetime = d, date_str = s, media_type = JStr [], location = JStr [],
                         url = JStr u\<rparr>))"
  using round_trip_utc [OF assms] round_trip_plain [OF assms] round_trip_long [OF assms]
    parsed_is_loaded by blast

text \<open>The round trip at 1 May 2023, 10:00:00.\<close>

theorem date_round_trip_witness:
  "valid_datetime (datetime sample_memory) \<and> 1000 \<le> year (datetime sample_memory) \<and>
   strftime_tz ''UTC'' (datetime sample_memory) ''%Y-%m-%d %H:%M:%S %Z'' = ''2023-05-01 10:00:00 UTC'' \<and>
   parse_date ''2023-05-01 10:00:00 UTC'' date_formats = Some (datetime sample_memory) \<and>
   strftime (datetime sample_memory) ''%B %d, %Y'' = ''May 01, 2023'' \<and>
   parse_date ''May 01, 2023'' date_formats =
     Some ((datetime sample_memory)\<lparr>hour := 0, minute := 0, second := 0\<rparr>) \<and>
   normalize_item (JObj [(''Date'', JStr ''May 01, 2023''), (''Media Download Url'', JStr ''u'')]) =
     Inr (Some \<lparr>datetime = (datetime sample_memory)\<lparr>hour := 0, minute := 0, second := 0\<rparr>,
                date_str = ''May 01, 2023'', media_type = JStr [], location = JStr [], url = JStr ''u''\<rparr>)"
proof -
  have v: "valid_datetime (datetime sample_memory)" by code_simp
  have y: "1000 \<le> year (datetime sample_memory)" by code_simp
  have s1: "strftime_tz ''UTC'' (datetime sample_memory) ''%Y-%m-%d %H:%M:%S %Z'' = ''2023-05-01 10:00:00 UTC''"
    by code_simp
  have s3: "strftime (datetime sample_memory) ''%B %d, %Y'' = ''May 01, 2023''"
    by code_simp
  note rt = date_round_trip [OF v y]
  have p1: "parse_date ''2023-05-01 10:00:00 UTC'' date_formats = Some (datetime sample_memory)"
    using rt by (simp only: s1)
  have p3: "parse_date ''May 01, 2023'' date_formats =
     Some ((datetime sample_memory)\<lparr>hour := 0, minute := 0, second := 0\<rparr>)"
    using rt by (simp only: s3)
  have n: "normalize_item (JObj [(''Date'', JStr ''May 01, 2023''), (''Media Download Url'', JStr ''u'')]) =
     Inr (Some \<lparr>datetime = (datetime sample_memory)\<lparr>hour := 0, minute := 0, second := 0\<rparr>,
                date_str = ''May 01, 2023'', media_type = JStr [], location = JStr [], url = JStr ''u''\<rparr>)"
    using rt p3 by simp
  show ?thesis using v y s1 p1 s3 p3 n by (simp only: simp_thms)
qed

end
